theory Spec2Isabelle
  imports Complex_Main
begin

section \<open>Conventions of the embedding\<close>

text \<open>
  The numerical code of CDTools (torch, numpy and scipy arrays) is embedded over exact
  real and complex numbers: a tensor of rank one is a list, of rank two a list of rows,
  and so on. Rounding is not part of the model; every equation below is an equation of
  exact arithmetic. An exception raised by Python is the left summand of a result.
  A tensor all of whose entries are infinite or NaN (the result of dividing a tensor
  by the scalar zero) is the value \<open>NonFinite x\<close>, where \<open>x\<close> is a tensor of the same
  shape (the tensor that was divided): HOL's own \<open>x / 0 = 0\<close> is never used to stand
  for it. Arithmetic on such a tensor gives such a tensor again.
\<close>

datatype py_error =
    KeyError string
  | IndexError
  | ValueError
  | RuntimeError
  | AttributeError

datatype 'a ieee = Finite 'a | NonFinite 'a

fun payload :: "'a ieee \<Rightarrow> 'a" where
  "payload (Finite x) = x"
| "payload (NonFinite x) = x"

fun is_finite :: "'a ieee \<Rightarrow> bool" where
  "is_finite (Finite x) = True"
| "is_finite (NonFinite x) = False"

definition tag :: "bool \<Rightarrow> 'a \<Rightarrow> 'a ieee" where
  "tag fin x = (if fin then Finite x else NonFinite x)"

type_synonym cvec = "complex list"
type_synonym cmat = "complex list list"
type_synonym rmat = "real list list"

section \<open>Python strings: \<open>str.lower\<close> and \<open>str.strip\<close>\<close>

text \<open>
  A Python string is modelled as a list of characters with code points below 256.
  \<open>lower\<close> maps the upper-case letters of that range to their lower-case partners,
  \<open>strip\<close> removes the leading and trailing characters for which \<open>str.isspace\<close> holds.
\<close>

definition is_upper :: "char \<Rightarrow> bool" where
  "is_upper c =
     (let n = of_char c :: nat
      in (65 \<le> n \<and> n \<le> 90) \<or> (192 \<le> n \<and> n \<le> 222 \<and> n \<noteq> 215))"

definition lower_char :: "char \<Rightarrow> char" where
  "lower_char c = (if is_upper c then char_of (of_char c + (32::nat)) else c)"

definition lower :: "string \<Rightarrow> string" where
  "lower s = map lower_char s"

definition isspace :: "char \<Rightarrow> bool" where
  "isspace c =
     (let n = of_char c :: nat
      in (9 \<le> n \<and> n \<le> 13) \<or> (28 \<le> n \<and> n \<le> 32) \<or> n = 133 \<or> n = 160)"

definition strip :: "string \<Rightarrow> string" where
  "strip s = rev (dropWhile isspace (rev (dropWhile isspace s)))"

section \<open>The loss selected by \<open>FancyPtycho.__init__\<close>\<close>

datatype loss_fn = amplitude_mse | poisson_nll

definition select_loss :: "string \<Rightarrow> py_error + loss_fn" where
  "select_loss loss =
     (if strip (lower loss) = ''amplitude mse'' \<or> strip (lower loss) = ''amplitude_mse''
      then Inr amplitude_mse
      else if strip (lower loss) = ''poisson nll'' \<or> strip (lower loss) = ''poisson_nll''
      then Inr poisson_nll
      else Inl (KeyError ''Specified loss function not supported''))"

section \<open>Tensor helpers\<close>

text \<open>
  \<open>t.max\<close> of a tensor without entries raises; \<open>x[0]\<close> of an empty tensor raises.
\<close>

definition tensor_max :: "real list \<Rightarrow> py_error + real" where
  "tensor_max xs = (case xs of [] \<Rightarrow> Inl RuntimeError | x # ys \<Rightarrow> Inr (fold max ys x))"

definition smul2 :: "complex \<Rightarrow> cmat \<Rightarrow> cmat" where
  "smul2 c A = map (map (\<lambda>z. c * z)) A"

definition smul3 :: "complex \<Rightarrow> cmat list \<Rightarrow> cmat list" where
  "smul3 c P = map (smul2 c) P"

definition smul4 :: "complex \<Rightarrow> cmat list list \<Rightarrow> cmat list list" where
  "smul4 c E = map (smul3 c) E"

definition ones2 :: "nat \<Rightarrow> nat \<Rightarrow> 'a \<Rightarrow> 'a list list" where
  "ones2 h w x = replicate h (replicate w x)"

text \<open>
  Python's slice \<open>xs[a:b]\<close>: a negative bound counts from the end, and both bounds are
  clipped to the list.
\<close>

definition slice_bound :: "nat \<Rightarrow> int \<Rightarrow> nat" where
  "slice_bound n i = (if i < 0 then nat (max (i + int n) 0) else min (nat i) n)"

definition py_slice :: "int \<Rightarrow> int \<Rightarrow> 'a list \<Rightarrow> 'a list" where
  "py_slice a b xs =
     (let lo = slice_bound (length xs) a; hi = slice_bound (length xs) b
      in take (hi - lo) (drop lo xs))"

definition py_slice2 :: "int \<times> int \<Rightarrow> int \<times> int \<Rightarrow> 'a list list \<Rightarrow> 'a list list" where
  "py_slice2 r c A = map (py_slice (fst c) (snd c)) (py_slice (fst r) (snd r) A)"

text \<open>Python's index \<open>xs[i]\<close>: a negative index counts from the end, out of range raises.\<close>

definition py_index :: "'a list \<Rightarrow> int \<Rightarrow> py_error + 'a" where
  "py_index xs i =
     (let n = int (length xs); j = (if i < 0 then i + n else i)
      in if 0 \<le> j \<and> j < n then Inr (xs ! nat j) else Inl IndexError)"

text \<open>Indexing by a batch of indices, \<open>xs[index]\<close>, raises when one index is out of range.\<close>

fun py_take :: "'a list \<Rightarrow> int list \<Rightarrow> py_error + 'a list" where
  "py_take xs [] = Inr []"
| "py_take xs (i # is) =
     (case py_index xs i of
        Inl e \<Rightarrow> Inl e
      | Inr x \<Rightarrow> (case py_take xs is of Inl e \<Rightarrow> Inl e | Inr ys \<Rightarrow> Inr (x # ys)))"

text \<open>
  Broadcasting of two tensors along one axis: equal sizes are combined entry by entry, a
  size of one is repeated, anything else raises. The combining function may raise itself
  (it is the broadcast along the next axis).
\<close>

fun sequence :: "(py_error + 'a) list \<Rightarrow> py_error + 'a list" where
  "sequence [] = Inr []"
| "sequence (r # rs) =
     (case r of
        Inl e \<Rightarrow> Inl e
      | Inr x \<Rightarrow> (case sequence rs of Inl e \<Rightarrow> Inl e | Inr xs \<Rightarrow> Inr (x # xs)))"

definition bcast :: "('a \<Rightarrow> 'b \<Rightarrow> py_error + 'c) \<Rightarrow> 'a list \<Rightarrow> 'b list \<Rightarrow> py_error + 'c list" where
  "bcast f xs ys =
     (if length xs = length ys then sequence (map2 f xs ys)
      else if length xs = 1 then sequence (map (f (hd xs)) ys)
      else if length ys = 1 then sequence (map (\<lambda>x. f x (hd ys)) xs)
      else Inl RuntimeError)"

definition bcast2 :: "('a \<Rightarrow> 'b \<Rightarrow> 'c) \<Rightarrow> 'a list list \<Rightarrow> 'b list list \<Rightarrow> py_error + 'c list list" where
  "bcast2 f A B = bcast (bcast (\<lambda>a b. Inr (f a b))) A B"

section \<open>The model object \<open>FancyPtycho\<close>\<close>

text \<open>
  The probe is a stack of modes (modes by rows by columns), as \<open>from_dataset\<close> builds it
  and as \<open>interaction\<close> and \<open>tidy_probes\<close> index it; for such a guess
  \<open>probe_guess.dim() > 2\<close> holds. The weights are either one real number per shot or one
  complex matrix (rank by modes) per shot. Pixel translations and translation offsets
  are pairs. The fields \<open>detector_geometry\<close> (of which only the basis is read) and
  \<open>units\<close> are kept as they are given.
\<close>

datatype weights_t = Scalar_weights "real list" | Matrix_weights "cmat list"

type_synonym slice2 = "(int \<times> int) \<times> (int \<times> int)"

record fancy_ptycho =
  wavelength :: real
  detector_basis :: rmat
  min_translation :: "real \<times> real"
  probe_basis :: rmat
  detector_slice :: "slice2 option"
  surface_normal :: "real list"
  saturation :: "real option"
  units :: string
  mask :: "bool list list option"
  probe_norm :: real
  probe :: "cmat list ieee"
  obj :: cmat
  background :: rmat
  weights :: "weights_t option"
  translation_offsets :: "(real \<times> real) list ieee option"
  translation_scale :: real
  probe_support :: "bool list list"
  oversampling :: nat
  simulate_probe_translation :: bool
  I_phase :: "rmat ieee option"
  J_phase :: "rmat ieee option"
  loss :: loss_fn

record init_args =
  arg_wavelength :: real
  arg_detector_basis :: rmat
  arg_probe_basis :: rmat
  arg_probe_guess :: "cmat list"
  arg_obj_guess :: cmat
  arg_detector_slice :: "slice2 option"
  arg_surface_normal :: "real list"
  arg_min_translation :: "real \<times> real"
  arg_background :: "rmat option"
  arg_translation_offsets :: "(real \<times> real) list option"
  arg_mask :: "bool list list option"
  arg_weights :: "weights_t option"
  arg_translation_scale :: real
  arg_saturation :: "real option"
  arg_probe_support :: "bool list list option"
  arg_oversampling :: nat
  arg_loss :: string
  arg_units :: string
  arg_simulate_probe_translation :: bool

text \<open>\<open>1 * t.max(t.abs(probe_guess[0]))\<close>\<close>

definition initial_probe_norm :: "cmat list \<Rightarrow> py_error + real" where
  "initial_probe_norm probe_guess =
     (case probe_guess of
        [] \<Rightarrow> Inl IndexError
      | p0 # _ \<Rightarrow> tensor_max (map cmod (concat p0)))"

text \<open>
  \<open>probe_guess / self.probe_norm\<close>: division of every entry by a real scalar. Dividing
  by zero leaves infinities and NaNs in every entry.
\<close>

definition tensor_div :: "cmat list \<Rightarrow> real \<Rightarrow> cmat list ieee" where
  "tensor_div P n = (if n = 0 then NonFinite P else Finite (smul3 (1 / of_real n) P))"

definition offsets_div :: "(real \<times> real) list \<Rightarrow> real \<Rightarrow> (real \<times> real) list ieee" where
  "offsets_div os s =
     (if s = 0 then NonFinite os else Finite (map (\<lambda>(a, b). (a / s, b / s)) os))"

definition shape2 :: "'a list list \<Rightarrow> nat \<times> nat" where
  "shape2 A = (length A, (case A of [] \<Rightarrow> 0 | r # _ \<Rightarrow> length r))"

definition default_background :: "cmat \<Rightarrow> slice2 option \<Rightarrow> rmat" where
  "default_background p0 sl =
     (let (h, w) = (case sl of None \<Rightarrow> shape2 p0 | Some (r, c) \<Rightarrow> shape2 (py_slice2 r c p0))
      in ones2 h w (1 / 10 ^ 6))"

text \<open>
  \<open>2 * np.pi * Is\<close> with \<open>Is, Js = t.meshgrid(Is / t.max(Is), Js / t.max(Js))\<close>, the
  index along one axis divided by the last index; with a single index that is 0 / 0.
\<close>

definition phase_I :: "nat \<Rightarrow> nat \<Rightarrow> rmat ieee" where
  "phase_I h w =
     tag (h \<noteq> 1) (map (\<lambda>i. replicate w (2 * pi * (real i / real (h - 1)))) [0..<h])"

definition phase_J :: "nat \<Rightarrow> nat \<Rightarrow> rmat ieee" where
  "phase_J h w =
     tag (w \<noteq> 1) (replicate h (map (\<lambda>j. 2 * pi * (real j / real (w - 1))) [0..<w]))"

definition FancyPtycho_init :: "init_args \<Rightarrow> py_error + fancy_ptycho" where
  "FancyPtycho_init a =
     (case initial_probe_norm (arg_probe_guess a) of
        Inl e \<Rightarrow> Inl e
      | Inr pn \<Rightarrow>
          (case select_loss (arg_loss a) of
             Inl e \<Rightarrow> Inl e
           | Inr l \<Rightarrow>
               (let p0 = hd (arg_probe_guess a); (h, w) = shape2 p0 in
                Inr \<lparr> wavelength = arg_wavelength a,
                      detector_basis = arg_detector_basis a,
                      min_translation = arg_min_translation a,
                      probe_basis = arg_probe_basis a,
                      detector_slice = arg_detector_slice a,
                      surface_normal = arg_surface_normal a,
                      saturation = arg_saturation a,
                      units = arg_units a,
                      mask = arg_mask a,
                      probe_norm = pn,
                      probe = tensor_div (arg_probe_guess a) pn,
                      obj = arg_obj_guess a,
                      background =
                        (case arg_background a of
                           None \<Rightarrow> default_background p0 (arg_detector_slice a)
                         | Some b \<Rightarrow> b),
                      weights = arg_weights a,
                      translation_offsets =
                        (case arg_translation_offsets a of
                           None \<Rightarrow> None
                         | Some os \<Rightarrow> Some (offsets_div os (arg_translation_scale a))),
                      translation_scale = arg_translation_scale a,
                      probe_support =
                        (case arg_probe_support a of
                           None \<Rightarrow> ones2 h w True
                         | Some s \<Rightarrow> s),
                      oversampling = arg_oversampling a,
                      simulate_probe_translation = arg_simulate_probe_translation a,
                      I_phase =
                        (if arg_simulate_probe_translation a then Some (phase_I h w) else None),
                      J_phase =
                        (if arg_simulate_probe_translation a then Some (phase_J h w) else None),
                      loss = l \<rparr>)))"

section \<open>\<open>FancyPtycho.from_dataset\<close>\<close>

text \<open>
  The first half of \<open>from_dataset\<close> reads the dataset and calls the initializers
  (\<open>exit_wave_geometry\<close>, \<open>calc_object_setup\<close>, \<open>SHARP_style_probe\<close>, ...). Their results
  are the record \<open>prepared\<close>; \<open>rand_mode i\<close> is the \<open>i\<close>-th array drawn by \<open>t.rand\<close> for
  the subdominant probe modes. The steps from the stacking of the probe modes on are
  modelled as written.
\<close>

record prepared =
  ds_len :: nat
  ds_wavelength :: real
  ds_detector_basis :: rmat
  ds_probe_basis :: rmat
  ds_det_slice :: "slice2 option"
  ds_surface_normal :: "real list"
  ds_min_translation :: "real \<times> real"
  ds_background :: "rmat option"
  ds_mask :: "bool list list option"
  ds_probe :: cmat
  ds_obj :: cmat
  rand_mode :: "nat \<Rightarrow> cmat"

definition eye_rect :: "nat \<Rightarrow> nat \<Rightarrow> cmat" where
  "eye_rect r k = map (\<lambda>i. map (\<lambda>j. if i = j then 1 else 0) [0..<k]) [0..<r]"

definition initial_weights :: "nat \<Rightarrow> int \<Rightarrow> int option \<Rightarrow> py_error + weights_t" where
  "initial_weights n n_modes dm_rank =
     (if dm_rank \<noteq> None \<and> dm_rank \<noteq> Some 0 then
        (let r = the dm_rank in
         if r > n_modes then
           Inl (KeyError ''Density matrix rank cannot be greater than the number of modes. Use dm_rank = -1 to use a full rank matrix.'')
         else
           (let r' = (if r = - 1 then n_modes else r) in
            if r' < 0 \<or> n_modes < 0 then Inl RuntimeError
            else Inr (Matrix_weights (replicate n (eye_rect (nat r') (nat n_modes))))))
      else Inr (Scalar_weights (replicate n 1)))"

definition support_disc :: "nat \<Rightarrow> nat \<Rightarrow> real \<Rightarrow> bool list list" where
  "support_disc h w radius =
     map (\<lambda>i. map (\<lambda>j. sqrt ((real i - (real h - 1) / 2)\<^sup>2 + (real j - (real w - 1) / 2)\<^sup>2) < radius)
                 [0..<w]) [0..<h]"

definition mask_mode :: "bool list list \<Rightarrow> cmat \<Rightarrow> cmat" where
  "mask_mode s p = map2 (map2 (\<lambda>z b. if b then z else 0)) p s"

definition from_dataset ::
  "prepared \<Rightarrow> int \<Rightarrow> int option \<Rightarrow> real \<Rightarrow> real option \<Rightarrow> real option \<Rightarrow> nat \<Rightarrow> string
     \<Rightarrow> string \<Rightarrow> bool \<Rightarrow> py_error + fancy_ptycho" where
  "from_dataset d n_modes dm_rank translation_scale' saturation' probe_support_radius
       oversampling' loss' units' simulate =
     (case tensor_max (map cmod (concat (ds_probe d))) of
        Inl e \<Rightarrow> Inl e
      | Inr probe_max \<Rightarrow>
          (let stack = ds_probe d #
                 map (\<lambda>i. smul2 (of_real (probe_max / 100)) (rand_mode d i))
                     [0..<nat (n_modes - 1)];
               offsets = replicate (ds_len d) (0, 0)
           in case initial_weights (ds_len d) n_modes dm_rank of
                Inl e \<Rightarrow> Inl e
              | Inr Ws \<Rightarrow>
                  (let (h, w) = shape2 (ds_probe d);
                       support = map_option (support_disc h w) probe_support_radius;
                       stack' = (case support of None \<Rightarrow> stack
                                 | Some s \<Rightarrow> map (mask_mode s) stack)
                   in FancyPtycho_init
                        \<lparr> arg_wavelength = ds_wavelength d,
                          arg_detector_basis = ds_detector_basis d,
                          arg_probe_basis = ds_probe_basis d,
                          arg_probe_guess = stack',
                          arg_obj_guess = ds_obj d,
                          arg_detector_slice = ds_det_slice d,
                          arg_surface_normal = ds_surface_normal d,
                          arg_min_translation = ds_min_translation d,
                          arg_background = ds_background d,
                          arg_translation_offsets = Some offsets,
                          arg_mask = ds_mask d,
                          arg_weights = Some Ws,
                          arg_translation_scale = translation_scale',
                          arg_saturation = saturation',
                          arg_probe_support = support,
                          arg_oversampling = oversampling',
                          arg_loss = loss',
                          arg_units = units',
                          arg_simulate_probe_translation = simulate \<rparr>)))"

text \<open>The loss names that \<open>__init__\<close> accepts, after \<open>lower\<close> and \<open>strip\<close>.\<close>

definition recognized_losses :: "string set" where
  "recognized_losses = {''amplitude mse'', ''amplitude_mse'', ''poisson nll'', ''poisson_nll''}"

subsection \<open>Concrete inputs\<close>

definition example_args :: init_args where
  "example_args =
     \<lparr> arg_wavelength = 1, arg_detector_basis = [[1, 0], [0, 1]],
       arg_probe_basis = [[1, 0], [0, 1]],
       arg_probe_guess = [[[2, 1]], [[0, 1]]],
       arg_obj_guess = [[1, 1, 1], [1, 1, 1]],
       arg_detector_slice = None, arg_surface_normal = [0, 0, 1],
       arg_min_translation = (1, 1), arg_background = None,
       arg_translation_offsets = Some [(1, 2)], arg_mask = None,
       arg_weights = Some (Scalar_weights [1]), arg_translation_scale = 2,
       arg_saturation = None, arg_probe_support = None, arg_oversampling = 1,
       arg_loss = '' Poisson_NLL '', arg_units = ''um'',
       arg_simulate_probe_translation = False \<rparr>"

definition example_prepared :: prepared where
  "example_prepared =
     \<lparr> ds_len = 2, ds_wavelength = 1, ds_detector_basis = [[1, 0], [0, 1]],
       ds_probe_basis = [[1, 0], [0, 1]], ds_det_slice = None,
       ds_surface_normal = [0, 0, 1], ds_min_translation = (0, 0),
       ds_background = None, ds_mask = None, ds_probe = [[2, 1]],
       ds_obj = [[1, 1, 1], [1, 1, 1]], rand_mode = (\<lambda>i. [[1, 1]]) \<rparr>"

section \<open>\<open>FancyPtycho.interaction\<close>\<close>

text \<open>
  Two functions of \<open>tools.interactions\<close> are called and are parameters here:
  \<open>translations_to_pixel basis translations surface_normal\<close>, written \<open>t2p\<close>, and
  \<open>ptycho_2D_sinc prs obj pix_trans\<close> (with \<open>shift_probe\<close> and \<open>multiple_modes\<close> set),
  written \<open>sinc\<close>, which may raise.
\<close>

type_synonym t2p_fn = "rmat \<Rightarrow> rmat \<Rightarrow> real list \<Rightarrow> (real \<times> real) list"
type_synonym sinc_fn = "cmat list list \<Rightarrow> cmat \<Rightarrow> (real \<times> real) list \<Rightarrow> py_error + cmat list list"

definition psub :: "real \<times> real \<Rightarrow> real \<times> real \<Rightarrow> real \<times> real" where
  "psub p q = (fst p - fst q, snd p - snd q)"

definition padd :: "real \<times> real \<Rightarrow> real \<times> real \<Rightarrow> real \<times> real" where
  "padd p q = (fst p + fst q, snd p + snd q)"

definition pscale :: "real \<Rightarrow> real \<times> real \<Rightarrow> real \<times> real" where
  "pscale c p = (c * fst p, c * snd p)"

text \<open>
  The in-place \<open>x += y\<close> on a batch of pairs: \<open>y\<close> is added row by row, a single row is
  added to every row of \<open>x\<close>, any other shape raises.
\<close>

definition inplace_add ::
  "(real \<times> real) list \<Rightarrow> (real \<times> real) list \<Rightarrow> py_error + (real \<times> real) list" where
  "inplace_add xs ys =
     (if length ys = length xs then Inr (map2 padd xs ys)
      else if length ys = 1 then Inr (map (\<lambda>x. padd x (hd ys)) xs)
      else Inl RuntimeError)"

text \<open>Step 1 of \<open>interaction\<close>: the pixel translations handed to the interaction.\<close>

definition interaction_pix_trans ::
  "t2p_fn \<Rightarrow> fancy_ptycho \<Rightarrow> int list \<Rightarrow> rmat \<Rightarrow> py_error + (real \<times> real) list ieee" where
  "interaction_pix_trans t2p m index translations =
     (let pix_trans = t2p (probe_basis m) translations (surface_normal m);
          pix_trans = map (\<lambda>p. psub p (min_translation m)) pix_trans
      in case translation_offsets m of
           None \<Rightarrow> Inr (Finite pix_trans)
         | Some offs \<Rightarrow>
             (case py_take (payload offs) index of
                Inl e \<Rightarrow> Inl e
              | Inr sel \<Rightarrow>
                  (case inplace_add pix_trans (map (pscale (translation_scale m)) sel) of
                     Inl e \<Rightarrow> Inl e
                   | Inr r \<Rightarrow> Inr (tag (is_finite offs \<or> index = []) r))))"

text \<open>\<open>self.probe * self.probe_support[..., :, :]\<close>\<close>

definition restrict_support :: "bool list list \<Rightarrow> cmat list \<Rightarrow> py_error + cmat list" where
  "restrict_support s P = sequence (map (\<lambda>p. bcast2 (\<lambda>z b. if b then z else 0) p s) P)"

text \<open>The sum of a stack of arrays along the stacking axis.\<close>

definition madd :: "cmat \<Rightarrow> cmat \<Rightarrow> cmat" where
  "madd A B = map2 (map2 (+)) A B"

definition msum :: "cmat list \<Rightarrow> cmat" where
  "msum Ms = (case Ms of [] \<Rightarrow> [] | M # Ms' \<Rightarrow> foldl madd M Ms')"

text \<open>
  The probes of each shot. With no weights or one real weight per shot, every basis
  probe is multiplied by the weight of the shot; with a weight matrix per shot, each row
  of the matrix combines the basis probes (\<open>t.sum(Ws[..., None, None] * basis_prs,
  axis=-3)\<close>).
\<close>

definition combine_row :: "cmat list \<Rightarrow> cvec \<Rightarrow> py_error + cmat" where
  "combine_row basis_prs w =
     (case bcast (\<lambda>c p. Inr (smul2 c p)) w basis_prs of
        Inl e \<Rightarrow> Inl e
      | Inr terms \<Rightarrow> Inr (msum terms))"

definition shot_probes ::
  "weights_t option \<Rightarrow> int list \<Rightarrow> cmat list \<Rightarrow> py_error + cmat list list" where
  "shot_probes ws index basis_prs =
     (case ws of
        None \<Rightarrow> Inr (map (\<lambda>i. smul3 1 basis_prs) index)
      | Some (Scalar_weights w) \<Rightarrow>
          (case py_take w index of
             Inl e \<Rightarrow> Inl e
           | Inr Ws \<Rightarrow>
               (if w = [] then Inl IndexError
                else Inr (map (\<lambda>c. smul3 (of_real c) basis_prs) Ws)))
      | Some (Matrix_weights W) \<Rightarrow>
          (case py_take W index of
             Inl e \<Rightarrow> Inl e
           | Inr Ws \<Rightarrow>
               (if W = [] then Inl IndexError
                else sequence (map (\<lambda>Wn. sequence (map (combine_row basis_prs) Wn)) Ws))))"

text \<open>
  The phase masks of a simulated probe translation,
  \<open>t.exp(1j * (det_pix_trans[:,0,None,None] * I_phase + det_pix_trans[:,1,None,None] * J_phase))\<close>,
  multiplied onto every mode of the shot.
\<close>

definition probe_mask :: "rmat \<Rightarrow> rmat \<Rightarrow> real \<times> real \<Rightarrow> py_error + cmat" where
  "probe_mask Iph Jph d =
     bcast2 (\<lambda>a b. cis (a + b)) (map (map (\<lambda>x. fst d * x)) Iph) (map (map (\<lambda>x. snd d * x)) Jph)"

definition apply_masks :: "cmat list list \<Rightarrow> cmat list \<Rightarrow> py_error + cmat list list" where
  "apply_masks prs masks =
     bcast (\<lambda>modes mask. sequence (map (\<lambda>p. bcast2 (*) p mask) modes)) prs masks"

definition simulate_translation ::
  "t2p_fn \<Rightarrow> fancy_ptycho \<Rightarrow> rmat \<Rightarrow> cmat list list \<Rightarrow> py_error + cmat list list ieee" where
  "simulate_translation t2p m translations prs =
     (if simulate_probe_translation m then
        (case (I_phase m, J_phase m) of
           (Some Iph, Some Jph) \<Rightarrow>
             (case sequence (map (probe_mask (payload Iph) (payload Jph))
                       (t2p (detector_basis m) translations (surface_normal m))) of
                Inl e \<Rightarrow> Inl e
              | Inr masks \<Rightarrow>
                  (case apply_masks prs masks of
                     Inl e \<Rightarrow> Inl e
                   | Inr r \<Rightarrow> Inr (tag (is_finite Iph \<and> is_finite Jph) r)))
         | _ \<Rightarrow> Inl AttributeError)
      else Inr (Finite prs))"

definition interaction ::
  "t2p_fn \<Rightarrow> sinc_fn \<Rightarrow> fancy_ptycho \<Rightarrow> int list \<Rightarrow> rmat \<Rightarrow> py_error + cmat list list ieee" where
  "interaction t2p sinc m index translations =
     (case interaction_pix_trans t2p m index translations of
        Inl e \<Rightarrow> Inl e
      | Inr pix_trans \<Rightarrow>
     (case restrict_support (probe_support m) (payload (probe m)) of
        Inl e \<Rightarrow> Inl e
      | Inr basis_prs \<Rightarrow>
     (case shot_probes (weights m) index basis_prs of
        Inl e \<Rightarrow> Inl e
      | Inr prs \<Rightarrow>
     (case simulate_translation t2p m translations prs of
        Inl e \<Rightarrow> Inl e
      | Inr prs' \<Rightarrow>
     (case sinc (payload prs') (obj m) (payload pix_trans) of
        Inl e \<Rightarrow> Inl e
      | Inr waves \<Rightarrow>
          Inr (tag (is_finite (probe m) \<and> is_finite prs' \<and> is_finite pix_trans)
                 (smul4 (of_real (probe_norm m)) waves)))))))"

section \<open>\<open>FancyPtycho.save_results\<close>\<close>

text \<open>
  The entry \<open>translation\<close> of the result comes from \<open>corrected_translations\<close> and the
  dataset and is left out; the other entries are modelled. \<open>self.weights.detach()\<close> raises
  when the model has no weights.
\<close>

record results =
  res_basis :: rmat
  res_probe :: "cmat list ieee"
  res_obj :: cmat
  res_background :: rmat
  res_weights :: weights_t

definition tensor_mul :: "cmat list ieee \<Rightarrow> real \<Rightarrow> cmat list ieee" where
  "tensor_mul P c = tag (is_finite P) (smul3 (of_real c) (payload P))"

definition save_results :: "fancy_ptycho \<Rightarrow> py_error + results" where
  "save_results m =
     (case weights m of
        None \<Rightarrow> Inl AttributeError
      | Some W \<Rightarrow>
          Inr \<lparr> res_basis = probe_basis m,
                res_probe = tensor_mul (probe m) (probe_norm m),
                res_obj = obj m,
                res_background = map (map (\<lambda>x. x\<^sup>2)) (background m),
                res_weights = W \<rparr>)"

definition example_model :: fancy_ptycho where
  "example_model =
     \<lparr> wavelength = 1, detector_basis = [[1, 0], [0, 1]], min_translation = (1, 1),
       probe_basis = [[1, 0], [0, 1]], detector_slice = None,
       surface_normal = [0, 0, 1], saturation = None, units = ''um'', mask = None,
       probe_norm = 2, probe = Finite [[[1, 1 / 2]], [[0, 1 / 2]]],
       obj = [[1, 1, 1], [1, 1, 1]], background = [[1 / 10 ^ 6, 1 / 10 ^ 6]],
       weights = Some (Scalar_weights [1]),
       translation_offsets = Some (Finite [(1 / 2, 1)]), translation_scale = 2,
       probe_support = [[True, True]], oversampling = 1,
       simulate_probe_translation = False, I_phase = None, J_phase = None,
       loss = poisson_nll \<rparr>"

definition example_t2p :: t2p_fn where
  "example_t2p basis translations normal = map (\<lambda>row. (row ! 0, row ! 1)) translations"

section \<open>The probe rescaling seen from outside\<close>

fun ieee_map :: "('a \<Rightarrow> 'b) \<Rightarrow> 'a ieee \<Rightarrow> 'b ieee" where
  "ieee_map f (Finite x) = Finite (f x)"
| "ieee_map f (NonFinite x) = NonFinite (f x)"

text \<open>
  What the interaction needs of \<open>ptycho_2D_sinc\<close>: a factor on all probes is a factor on
  all exit waves.
\<close>

definition sinc_homogeneous :: "sinc_fn \<Rightarrow> bool" where
  "sinc_homogeneous sinc \<longleftrightarrow>
     (\<forall>c prs ob pix. sinc (smul4 c prs) ob pix = map_sum id (smul4 c) (sinc prs ob pix))"

text \<open>The probe that \<open>save_results\<close> returns right after construction.\<close>

definition saved_probe :: "init_args \<Rightarrow> py_error + cmat list ieee" where
  "saved_probe a =
     (case FancyPtycho_init a of
        Inl e \<Rightarrow> Inl e
      | Inr m \<Rightarrow> map_sum id res_probe (save_results m))"

text \<open>An interaction that multiplies every probe by the object, whatever the translation.\<close>

definition example_sinc :: sinc_fn where
  "example_sinc prs ob pix = Inr (map (map (\<lambda>p. map2 (map2 (*)) p ob)) prs)"

section \<open>\<open>propagators.get_exit_waves\<close>\<close>

text \<open>
  A two-dimensional array with its shape, so that an array without rows keeps its
  width. Arithmetic between two arrays broadcasts: along each axis the sizes are equal
  or one of them is one, anything else raises. \<open>cmult\<close>, the product of two arrays of
  complex numbers from \<open>tools.cmath\<close>, acts entry by entry; its action on two entries is
  the parameter \<open>cm\<close>.
\<close>

type_synonym tensor2 = "(nat \<times> nat) \<times> cmat"

definition bshape :: "nat \<Rightarrow> nat \<Rightarrow> py_error + nat" where
  "bshape a b =
     (if a = b then Inr a else if a = 1 then Inr b else if b = 1 then Inr a
      else Inl RuntimeError)"

definition bidx :: "nat \<Rightarrow> nat \<Rightarrow> nat" where
  "bidx n i = (if n = 1 then 0 else i)"

definition t2_bin :: "(complex \<Rightarrow> complex \<Rightarrow> complex) \<Rightarrow> tensor2 \<Rightarrow> tensor2 \<Rightarrow> py_error + tensor2" where
  "t2_bin f X Y =
     (case X of ((h, w), A) \<Rightarrow> case Y of ((h', w'), B) \<Rightarrow>
        (case bshape h h' of
           Inl e \<Rightarrow> Inl e
         | Inr H \<Rightarrow>
             (case bshape w w' of
                Inl e \<Rightarrow> Inl e
              | Inr W \<Rightarrow>
                  Inr ((H, W),
                       map (\<lambda>i. map (\<lambda>j. f (A ! bidx h i ! bidx w j) (B ! bidx h' i ! bidx w' j))
                                   [0..<W]) [0..<H]))))"

definition t2_scale :: "real \<Rightarrow> tensor2 \<Rightarrow> tensor2" where
  "t2_scale c X = (fst X, smul2 (of_real c) (snd X))"

text \<open>\<open>object[a:b, c:d]\<close>\<close>

definition slice_len :: "nat \<Rightarrow> int \<Rightarrow> int \<Rightarrow> nat" where
  "slice_len n a b = slice_bound n b - slice_bound n a"

definition select :: "cmat \<Rightarrow> int \<times> int \<Rightarrow> int \<times> int \<Rightarrow> tensor2" where
  "select ob r c =
     ((slice_len (fst (shape2 ob)) (fst r) (snd r), slice_len (snd (shape2 ob)) (fst c) (snd c)),
      py_slice2 r c ob)"

text \<open>
  \<open>.to(dtype=t.int32)\<close> and the index arithmetic on the converted values. Outside the
  range of 32-bit integers the source has no determined result; the model stops there
  with \<open>Unspecified\<close>.
\<close>

datatype outcome = Raised py_error | Unspecified

definition int32_ok :: "int \<Rightarrow> bool" where
  "int32_ok i \<longleftrightarrow> - (2 ^ 31) \<le> i \<and> i < 2 ^ 31"

fun out_sequence :: "(outcome + 'a) list \<Rightarrow> outcome + 'a list" where
  "out_sequence [] = Inr []"
| "out_sequence (r # rs) =
     (case r of
        Inl e \<Rightarrow> Inl e
      | Inr x \<Rightarrow> (case out_sequence rs of Inl e \<Rightarrow> Inl e | Inr xs \<Rightarrow> Inr (x # xs)))"

definition raised :: "py_error + 'a \<Rightarrow> outcome + 'a" where
  "raised r = (case r of Inl e \<Rightarrow> Inl (Raised e) | Inr x \<Rightarrow> Inr x)"

text \<open>The body of the loop: the interpolated selection for one translation.\<close>

definition selection :: "nat \<times> nat \<Rightarrow> cmat \<Rightarrow> real \<times> real \<Rightarrow> outcome + tensor2" where
  "selection pshape ob tr =
     (let i0 = \<lfloor>fst tr\<rfloor>; i1 = \<lfloor>snd tr\<rfloor>;
          sp0 = fst tr - of_int i0; sp1 = snd tr - of_int i1;
          p0 = int (fst pshape); p1 = int (snd pshape)
      in if \<not> (int32_ok i0 \<and> int32_ok i1 \<and> int32_ok (i0 + 1 + p0) \<and> int32_ok (i1 + 1 + p1))
         then Inl Unspecified
         else
           (let sel00 = select ob (i0, i0 + p0) (i1, i1 + p1);
                sel01 = select ob (i0, i0 + p0) (i1 + 1, i1 + 1 + p1);
                sel10 = select ob (i0 + 1, i0 + 1 + p0) (i1, i1 + p1);
                sel11 = select ob (i0 + 1, i0 + 1 + p0) (i1 + 1, i1 + 1 + p1)
            in raised
                 (case t2_bin (+) (t2_scale (1 - sp1) (t2_scale (1 - sp0) sel00))
                                  (t2_scale sp1 (t2_scale (1 - sp0) sel01)) of
                    Inl e \<Rightarrow> Inl e
                  | Inr s1 \<Rightarrow>
                      (case t2_bin (+) s1 (t2_scale (1 - sp1) (t2_scale sp0 sel10)) of
                         Inl e \<Rightarrow> Inl e
                       | Inr s2 \<Rightarrow> t2_bin (+) s2 (t2_scale sp1 (t2_scale sp0 sel11))))))"

text \<open>\<open>t.stack\<close> raises on an empty list and on arrays of different shapes.\<close>

definition stack :: "tensor2 list \<Rightarrow> py_error + cmat list" where
  "stack Xs =
     (case Xs of
        [] \<Rightarrow> Inl RuntimeError
      | X # _ \<Rightarrow> if list_all (\<lambda>Y. fst Y = fst X) Xs then Inr (map snd Xs) else Inl RuntimeError)"

definition get_exit_waves ::
  "(complex \<Rightarrow> complex \<Rightarrow> complex) \<Rightarrow> cmat \<Rightarrow> cmat \<Rightarrow> (real \<times> real) list \<Rightarrow> outcome + cmat list" where
  "get_exit_waves cm probe' object translations =
     (case out_sequence (map (selection (shape2 probe') object) translations) of
        Inl e \<Rightarrow> Inl e
      | Inr selections \<Rightarrow>
          (case sequence (map (t2_bin cm (shape2 probe', probe')) selections) of
             Inl e \<Rightarrow> Inl (Raised e)
           | Inr waves \<Rightarrow> raised (stack waves)))"

text \<open>The plain window of the object: \<open>h\<close> rows from row \<open>i\<close>, \<open>w\<close> columns from column \<open>j\<close>.\<close>

definition window :: "cmat \<Rightarrow> nat \<Rightarrow> nat \<Rightarrow> nat \<Rightarrow> nat \<Rightarrow> cmat" where
  "window ob i j h w = map (\<lambda>row. take w (drop j row)) (take h (drop i ob))"

definition rectangular :: "'a list list \<Rightarrow> bool" where
  "rectangular A \<longleftrightarrow> list_all (\<lambda>row. length row = snd (shape2 A)) A"

definition has_shape :: "tensor2 \<Rightarrow> bool" where
  "has_shape X \<longleftrightarrow>
     length (snd X) = fst (fst X) \<and> list_all (\<lambda>row. length row = snd (fst X)) (snd X)"

text \<open>
  A translation by whole pixels whose window, and the windows one pixel further down
  and to the right, lie inside the object.
\<close>

definition whole_pixels_inside :: "nat \<times> nat \<Rightarrow> nat \<times> nat \<Rightarrow> real \<times> real \<Rightarrow> bool" where
  "whole_pixels_inside pshape oshape tr \<longleftrightarrow>
     of_int \<lfloor>fst tr\<rfloor> = fst tr \<and> of_int \<lfloor>snd tr\<rfloor> = snd tr \<and>
     0 \<le> \<lfloor>fst tr\<rfloor> \<and> \<lfloor>fst tr\<rfloor> + int (fst pshape) + 1 \<le> int (fst oshape) \<and>
     0 \<le> \<lfloor>snd tr\<rfloor> \<and> \<lfloor>snd tr\<rfloor> + int (snd pshape) + 1 \<le> int (snd oshape)"

section \<open>\<open>FancyPtycho.measurement\<close>\<close>

text \<open>
  \<open>FancyPtycho.measurement\<close> hands the wavefields, the background, the detector slice, the
  saturation and the oversampling to \<open>tools.measurements.quadratic_background\<close> with
  \<open>tools.measurements.incoherent_sum\<close>; neither is among the sources.
\<close>

definition abs2 :: "complex \<Rightarrow> real" where
  "abs2 z = (Re z)\<^sup>2 + (Im z)\<^sup>2"

definition radd :: "rmat \<Rightarrow> rmat \<Rightarrow> rmat" where
  "radd A B = map2 (map2 (+)) A B"

text \<open>
  Modelled from the spec: \<open>tools.measurements.incoherent_sum\<close> is missing. Each
  wavefield is cropped to the detector slice, and the squared magnitudes are summed over
  the modes.
\<close>

definition incoherent_sum :: "slice2 option \<Rightarrow> cmat list \<Rightarrow> rmat" where
  "incoherent_sum sl modes =
     (let crop = (case sl of None \<Rightarrow> (\<lambda>p. p) | Some (r, c) \<Rightarrow> py_slice2 r c);
          Is = map (\<lambda>p. map (map abs2) (crop p)) modes
      in case Is of [] \<Rightarrow> [] | I # Is' \<Rightarrow> foldl radd I Is')"

text \<open>
  The blocks of \<open>n\<close> consecutive entries of a list, and the binning of an image over
  blocks of \<open>n\<close> by \<open>n\<close> pixels, by sum or by average.
\<close>

definition chunks :: "nat \<Rightarrow> 'a list \<Rightarrow> 'a list list" where
  "chunks n xs = map (\<lambda>k. take n (drop (k * n) xs)) [0..<length xs div n]"

definition bin2 :: "nat \<Rightarrow> bool \<Rightarrow> rmat \<Rightarrow> rmat" where
  "bin2 n average A =
     map (\<lambda>rows. map (\<lambda>block. if average then sum_list block / real (n * n) else sum_list block)
                   (chunks n (foldl (map2 (+)) (hd rows) (tl rows))))
         (chunks n A)"

text \<open>
  Modelled from the spec: \<open>tools.measurements.quadratic_background\<close> is missing. The
  square of the background is added to the incoherent sum, the image is binned when the
  oversampling is above one, and with a saturation value the intensity is clipped above
  that value.
\<close>

definition quadratic_background ::
  "bool \<Rightarrow> cmat list \<Rightarrow> rmat \<Rightarrow> slice2 option \<Rightarrow> real option \<Rightarrow> nat \<Rightarrow> py_error + rmat" where
  "quadratic_background average modes bg sl sat os =
     (case bcast2 (\<lambda>x b. x + b\<^sup>2) (incoherent_sum sl modes) bg of
        Inl e \<Rightarrow> Inl e
      | Inr I \<Rightarrow>
          (let I' = (if os > 1 then bin2 os average I else I)
           in Inr (case sat of None \<Rightarrow> I' | Some S \<Rightarrow> map (map (\<lambda>x. min x S)) I')))"

text \<open>The method itself, on a batch of mode stacks.\<close>

definition measurement :: "bool \<Rightarrow> fancy_ptycho \<Rightarrow> cmat list list \<Rightarrow> py_error + rmat list" where
  "measurement average m wavefields =
     sequence (map (\<lambda>modes. quadratic_background average modes (background m) (detector_slice m)
                               (saturation m) (oversampling m)) wavefields)"

definition pixels :: "rmat list \<Rightarrow> real list" where
  "pixels Is = concat (concat Is)"

definition nonneg :: "rmat \<Rightarrow> bool" where
  "nonneg A \<longleftrightarrow> (\<forall>x\<in>set (concat A). 0 \<le> x)"

section \<open>Matrices\<close>

text \<open>
  A matrix is the list of its rows. \<open>np.dot\<close> raises when the inner sizes differ. The
  entries of the numpy functions used below: \<open>transpose\<close>, \<open>conj\<close>, \<open>diag\<close>, \<open>eye\<close>.
\<close>

definition ncols :: "'a list list \<Rightarrow> nat" where
  "ncols A = snd (shape2 A)"

definition col :: "'a list list \<Rightarrow> nat \<Rightarrow> 'a list" where
  "col A j = map (\<lambda>row. row ! j) A"

definition dot :: "cvec \<Rightarrow> cvec \<Rightarrow> complex" where
  "dot xs ys = sum_list (map2 (*) xs ys)"

definition matmul :: "cmat \<Rightarrow> cmat \<Rightarrow> cmat" where
  "matmul A B = map (\<lambda>row. map (\<lambda>j. dot row (col B j)) [0..<ncols B]) A"

definition np_dot :: "cmat \<Rightarrow> cmat \<Rightarrow> py_error + cmat" where
  "np_dot A B = (if ncols A = length B then Inr (matmul A B) else Inl ValueError)"

definition transpose_m :: "cmat \<Rightarrow> cmat" where
  "transpose_m A = map (col A) [0..<ncols A]"

definition conj_m :: "cmat \<Rightarrow> cmat" where
  "conj_m A = map (map cnj) A"

definition diag :: "cvec \<Rightarrow> cmat" where
  "diag xs = map (\<lambda>i. map (\<lambda>j. if i = j then xs ! i else 0) [0..<length xs]) [0..<length xs]"

definition eye :: "nat \<Rightarrow> cmat" where
  "eye n = map (\<lambda>i. map (\<lambda>j. if i = j then 1 else 0) [0..<n]) [0..<n]"

definition is_mat :: "nat \<Rightarrow> nat \<Rightarrow> 'a list list \<Rightarrow> bool" where
  "is_mat r c A \<longleftrightarrow> length A = r \<and> list_all (\<lambda>row. length row = c) A"

section \<open>\<open>analysis.orthogonalize_probes\<close>\<close>

text \<open>
  The three library routines are parameters, each of which may raise:
  \<open>scipy.linalg.eigh\<close> (eigenvalues in ascending order and the matrix whose columns are
  the eigenvectors), \<open>scipy.linalg.svd\<close> with \<open>full_matrices=False\<close>, and
  \<open>numpy.linalg.pinv\<close>.
\<close>

type_synonym eigh_fn = "cmat \<Rightarrow> py_error + (real list \<times> cmat)"
type_synonym svd_fn = "cmat \<Rightarrow> py_error + (cmat \<times> real list \<times> cmat)"
type_synonym pinv_fn = "cmat \<Rightarrow> py_error + cmat"

text \<open>\<open>w[::-1]\<close> followed by \<open>np.maximum(w, 0)\<close>: what the square root is taken of.\<close>

definition clip_eigenvalues :: "real list \<Rightarrow> real list" where
  "clip_eigenvalues w = map (\<lambda>x. max x 0) (rev w)"

text \<open>\<open>v[:, ::-1]\<close>\<close>

definition reverse_columns :: "cmat \<Rightarrow> cmat" where
  "reverse_columns v = map rev v"

text \<open>
  \<open>M.reshape(k, h, w)\<close> of a matrix: the entries in row-major order, \<open>k\<close> blocks of \<open>h\<close>
  rows of \<open>w\<close> entries; raises when the number of entries is not \<open>k * h * w\<close>.
\<close>

definition reshape3 :: "nat \<Rightarrow> nat \<Rightarrow> nat \<Rightarrow> cmat \<Rightarrow> py_error + cmat list" where
  "reshape3 k h w M =
     (let flat = concat M
      in if length flat \<noteq> k * h * w then Inl ValueError
         else Inr (map (\<lambda>a. map (\<lambda>b. take w (drop ((a * h + b) * w) flat)) [0..<h]) [0..<k]))"

definition sqrt_diag :: "real list \<Rightarrow> cmat" where
  "sqrt_diag w = diag (map (\<lambda>x. complex_of_real (sqrt x)) w)"

definition real_diag :: "real list \<Rightarrow> cmat" where
  "real_diag s = diag (map complex_of_real s)"

definition orthogonalize_probes ::
  "eigh_fn \<Rightarrow> svd_fn \<Rightarrow> pinv_fn \<Rightarrow> cmat list \<Rightarrow> cmat option \<Rightarrow> bool
     \<Rightarrow> py_error + (cmat list \<times> cmat)" where
  "orthogonalize_probes eigh svd pinv probes density_matrix normalize_modes =
     (let k = length probes;
          (h, w) = shape2 (case probes of [] \<Rightarrow> [] | p # _ \<Rightarrow> p);
          probes_mat = map concat probes;
          density = (case density_matrix of None \<Rightarrow> eye k | Some d \<Rightarrow> d)
      in case eigh density of
           Inl e \<Rightarrow> Inl e
         | Inr (ev, v) \<Rightarrow>
      (case np_dot (sqrt_diag (clip_eigenvalues ev))
                   (transpose_m (conj_m (reverse_columns v))) of
           Inl e \<Rightarrow> Inl e
         | Inr B_dagger \<Rightarrow>
      (case np_dot B_dagger probes_mat of
           Inl e \<Rightarrow> Inl e
         | Inr M \<Rightarrow>
      (case svd M of
           Inl e \<Rightarrow> Inl e
         | Inr (u, s, vh) \<Rightarrow>
      (if normalize_modes then
         (case reshape3 k h w vh of
            Inl e \<Rightarrow> Inl e
          | Inr ortho_probes \<Rightarrow>
         (case pinv B_dagger of
            Inl e \<Rightarrow> Inl e
          | Inr B_dagger_inv \<Rightarrow>
         (case np_dot u (real_diag s) of
            Inl e \<Rightarrow> Inl e
          | Inr us \<Rightarrow>
         (case np_dot B_dagger_inv us of
            Inl e \<Rightarrow> Inl e
          | Inr A \<Rightarrow> Inr (ortho_probes, A)))))
       else
         (case np_dot (real_diag s) vh of
            Inl e \<Rightarrow> Inl e
          | Inr sv \<Rightarrow>
         (case reshape3 k h w sv of
            Inl e \<Rightarrow> Inl e
          | Inr ortho_probes \<Rightarrow>
         (case pinv B_dagger of
            Inl e \<Rightarrow> Inl e
          | Inr B_dagger_inv \<Rightarrow>
         (case np_dot B_dagger_inv u of
            Inl e \<Rightarrow> Inl e
          | Inr A \<Rightarrow> Inr (ortho_probes, A))))))))))"

section \<open>\<open>FancyPtycho.get_rhos\<close> and \<open>FancyPtycho.tidy_probes\<close>\<close>

text \<open>\<open>np.matmul(np.swapaxes(Ws, 1, 2), Ws.conj())\<close>, shot by shot.\<close>

definition get_rhos :: "cmat list \<Rightarrow> cmat list" where
  "get_rhos Ws = map (\<lambda>W. matmul (transpose_m W) (conj_m W)) Ws"

text \<open>\<open>np.mean(rhos, axis=0)\<close> of a non-empty stack.\<close>

definition mean_rho :: "cmat list \<Rightarrow> cmat" where
  "mean_rho rhos = smul2 (1 / of_nat (length rhos)) (msum rhos)"

text \<open>The body of the loop over the transformed density matrices.\<close>

definition shot_weights :: "eigh_fn \<Rightarrow> nat \<Rightarrow> cmat \<Rightarrow> py_error + cmat" where
  "shot_weights eigh dm_rank rho =
     (case eigh rho of
        Inl e \<Rightarrow> Inl e
      | Inr (ev, v) \<Rightarrow>
          np_dot (sqrt_diag (take dm_rank (clip_eigenvalues ev)))
                 (transpose_m (map (take dm_rank) (reverse_columns v))))"

text \<open>
  \<open>scipy\<close> refuses arrays with infinite or NaN entries: a probe without finite entries,
  the mean of no density matrix at all, and a division by a zero \<open>normalization\<close> end in
  \<open>ValueError\<close>. With a negative \<open>normalization\<close> the square root is NaN and so are the
  stored probes.
\<close>

definition tidy_probes ::
  "eigh_fn \<Rightarrow> svd_fn \<Rightarrow> pinv_fn \<Rightarrow> real \<Rightarrow> bool \<Rightarrow> fancy_ptycho \<Rightarrow> py_error + fancy_ptycho" where
  "tidy_probes eigh svd pinv normalization normalize_modes m =
     (case weights m of
        None \<Rightarrow> Inl AttributeError
      | Some (Scalar_weights ws) \<Rightarrow>
          (if \<not> is_finite (probe m) then Inl ValueError
           else case orthogonalize_probes eigh svd pinv (payload (probe m)) None False of
                  Inl e \<Rightarrow> Inl e
                | Inr (ortho_probes, A) \<Rightarrow> Inr (m\<lparr>probe := Finite ortho_probes\<rparr>))
      | Some (Matrix_weights Ws) \<Rightarrow>
          (if Ws = [] \<or> \<not> is_finite (probe m) then Inl ValueError
           else
             (let rhos = get_rhos Ws;
                  overall_rho = mean_rho rhos
              in case orthogonalize_probes eigh svd pinv (payload (probe m)) (Some overall_rho)
                        normalize_modes of
                   Inl e \<Rightarrow> Inl e
                 | Inr (ortho_probes, A) \<Rightarrow>
                     (case sequence (map (\<lambda>rho.
                              case np_dot rho (conj_m A) of
                                Inl e \<Rightarrow> Inl e
                              | Inr rA \<Rightarrow> np_dot (transpose_m A) rA) rhos) of
                        Inl e \<Rightarrow> Inl e
                      | Inr new_rhos \<Rightarrow>
                          (if normalization = 0 then Inl ValueError
                           else
                             (let new_rhos = map (smul2 (1 / of_real normalization)) new_rhos;
                                  ortho_probes = smul3 (of_real (sqrt normalization)) ortho_probes;
                                  dm_rank = length (hd Ws)
                              in case sequence (map (shot_weights eigh dm_rank) new_rhos) of
                                   Inl e \<Rightarrow> Inl e
                                 | Inr new_Ws \<Rightarrow>
                                     Inr (m\<lparr>weights := Some (Matrix_weights new_Ws),
                                            probe := tag (0 < normalization) ortho_probes\<rparr>)))))))"

text \<open>An eigensolver whose negative eigenvalues have been replaced by zero.\<close>

definition clipped :: "eigh_fn \<Rightarrow> eigh_fn" where
  "clipped eigh A = map_sum id (\<lambda>(ev, v). (map (\<lambda>x. max x 0) ev, v)) (eigh A)"

section \<open>What the library routines guarantee\<close>

definition pmat :: "nat \<Rightarrow> nat \<Rightarrow> cmat \<Rightarrow> bool" where
  "pmat r c A \<longleftrightarrow> 0 < r \<and> 0 < c \<and> is_mat r c A"

definition dagger :: "cmat \<Rightarrow> cmat" where
  "dagger A = transpose_m (conj_m A)"

definition hermitian :: "cmat \<Rightarrow> bool" where
  "hermitian A \<longleftrightarrow> is_mat (length A) (length A) A \<and> dagger A = A"

text \<open>
  \<open>eigh\<close> of a Hermitian matrix: real eigenvalues in ascending order and a unitary
  matrix of eigenvectors that diagonalises the matrix.
\<close>

definition eigh_result :: "cmat \<Rightarrow> real list \<Rightarrow> cmat \<Rightarrow> bool" where
  "eigh_result A ev v \<longleftrightarrow>
     length ev = length A \<and> sorted ev \<and> is_mat (length A) (length A) v \<and>
     matmul v (dagger v) = eye (length A) \<and> matmul (dagger v) v = eye (length A) \<and>
     matmul (matmul v (real_diag ev)) (dagger v) = A"

definition eigh_contract :: "eigh_fn \<Rightarrow> bool" where
  "eigh_contract eigh \<longleftrightarrow>
     (\<forall>A ev v. eigh A = Inr (ev, v) \<and> hermitian A \<longrightarrow> eigh_result A ev v)"

text \<open>
  The reduced singular value decomposition of an \<open>r\<close> by \<open>n\<close> matrix, with
  \<open>k = min r n\<close>: \<open>u\<close> is \<open>r\<close> by \<open>k\<close> with orthonormal columns, \<open>vh\<close> is \<open>k\<close> by \<open>n\<close> with
  orthonormal rows, the singular values are not negative.
\<close>

definition svd_result :: "cmat \<Rightarrow> cmat \<Rightarrow> real list \<Rightarrow> cmat \<Rightarrow> bool" where
  "svd_result M u s vh \<longleftrightarrow>
     (let k = min (length M) (ncols M)
      in is_mat (length M) k u \<and> length s = k \<and> is_mat k (ncols M) vh \<and>
         list_all (\<lambda>x. 0 \<le> x) s \<and>
         matmul (matmul u (real_diag s)) vh = M \<and>
         matmul vh (dagger vh) = eye k \<and> matmul (dagger u) u = eye k)"

definition svd_contract :: "svd_fn \<Rightarrow> bool" where
  "svd_contract svd \<longleftrightarrow>
     (\<forall>M u s vh. svd M = Inr (u, s, vh) \<and> is_mat (length M) (ncols M) M \<longrightarrow> svd_result M u s vh)"

text \<open>The four conditions of Moore and Penrose.\<close>

definition pinv_result :: "cmat \<Rightarrow> cmat \<Rightarrow> bool" where
  "pinv_result B X \<longleftrightarrow>
     is_mat (ncols B) (length B) X \<and>
     matmul (matmul B X) B = B \<and> matmul (matmul X B) X = X \<and>
     dagger (matmul B X) = matmul B X \<and> dagger (matmul X B) = matmul X B"

definition pinv_contract :: "pinv_fn \<Rightarrow> bool" where
  "pinv_contract pinv \<longleftrightarrow>
     (\<forall>B X. pinv B = Inr X \<and> is_mat (length B) (ncols B) B \<longrightarrow> pinv_result B X)"

text \<open>The inner product of two modes over the pixels.\<close>

definition mode_inner :: "cmat \<Rightarrow> cmat \<Rightarrow> complex" where
  "mode_inner p q = dot (concat p) (map cnj (concat q))"

text \<open>A stack of \<open>k\<close> modes of \<open>h\<close> rows and \<open>w\<close> columns each, none of the sizes zero.\<close>

definition mode_stack :: "nat \<Rightarrow> nat \<Rightarrow> nat \<Rightarrow> cmat list \<Rightarrow> bool" where
  "mode_stack k h w P \<longleftrightarrow> length P = k \<and> 0 < k \<and> list_all (pmat h w) P"

subsection \<open>A concrete tidying run\<close>

text \<open>
  Two modes of one row and two columns, two shots with full-rank weight matrices, and
  the answers of the library routines on the matrices that occur.
\<close>

definition tidy_example :: fancy_ptycho where
  "tidy_example =
     example_model\<lparr>probe := Finite [[[1, 0]], [[0, 2]]],
                    weights := Some (Matrix_weights [[[2, 0], [0, 1]], [[2 * \<i>, 0], [0, 1]]])\<rparr>"

definition example_eigh :: eigh_fn where
  "example_eigh A =
     (if A = [[4, 0], [0, 1]] then Inr ([1, 4], [[0, 1], [1, 0]])
      else if A = [[1, 0], [0, 1]] then Inr ([1, 1], [[1, 0], [0, 1]])
      else Inl ValueError)"

definition example_svd :: svd_fn where
  "example_svd M =
     (if M = [[2, 0], [0, 2]] then Inr ([[1, 0], [0, 1]], [2, 2], [[1, 0], [0, 1]])
      else Inl ValueError)"

definition example_pinv :: pinv_fn where
  "example_pinv B =
     (if B = [[2, 0], [0, 1]] then Inr [[1 / 2, 0], [0, 1]] else Inl ValueError)"

definition tidy_example_result :: fancy_ptycho where
  "tidy_example_result =
     tidy_example\<lparr>weights := Some (Matrix_weights [[[0, 1], [1, 0]], [[0, 1], [1, 0]]]),
                   probe := Finite [[[2, 0]], [[0, 2]]]\<rparr>"

section \<open>The intensity of a shot\<close>

text \<open>
  The incoherent sum for one shot: the rows of the weight matrix combine the modes, and
  the squared magnitudes of the combinations are summed, pixel by pixel (the pixels of a
  mode in row-major order).
\<close>

definition shot_intensity :: "cmat \<Rightarrow> cmat list \<Rightarrow> real list" where
  "shot_intensity W P =
     (let mixed = matmul W (map concat P)
      in map (\<lambda>x. sum_list (map abs2 (col mixed x))) [0..<ncols mixed])"

text \<open>A weight matrix whose rank is the number of its columns: only the zero vector is sent to zero.\<close>

definition full_column_rank :: "cmat \<Rightarrow> bool" where
  "full_column_rank W \<longleftrightarrow>
     (\<forall>x. length x = ncols W \<and> list_all (\<lambda>row. dot row x = 0) W \<longrightarrow> list_all (\<lambda>z. z = 0) x)"

text \<open>The quadratic form of a matrix at a vector.\<close>

definition qform :: "cvec \<Rightarrow> cmat \<Rightarrow> complex" where
  "qform x A = (\<Sum>a<length x. \<Sum>b<length x. cnj (x ! a) * A ! a ! b * x ! b)"

text \<open>The Gram matrix of a weight matrix, \<open>W\<^sup>T conj(W)\<close>: the density matrix of a shot.\<close>

definition gram :: "cmat \<Rightarrow> cmat" where
  "gram W = matmul (transpose_m W) (conj_m W)"

section \<open>Construction errors\<close>

lemma select_loss_error_iff:
  "(\<exists>e. select_loss s = Inl e) \<longleftrightarrow> strip (lower s) \<notin> recognized_losses"
  by (auto simp: select_loss_def recognized_losses_def)

lemma init_error_iff:
  assumes "initial_probe_norm (arg_probe_guess a) = Inr pn"
  shows "(\<exists>e. FancyPtycho_init a = Inl e) \<longleftrightarrow> strip (lower (arg_loss a)) \<notin> recognized_losses"
  using assms select_loss_error_iff [of "arg_loss a"]
  by (auto simp: FancyPtycho_init_def Let_def split: sum.splits prod.splits)

lemma init_unrecognized:
  assumes "strip (lower (arg_loss a)) \<notin> recognized_losses"
  shows "\<exists>e. FancyPtycho_init a = Inl e"
  using assms select_loss_error_iff [of "arg_loss a"]
  by (auto simp: FancyPtycho_init_def Let_def split: sum.splits prod.splits)

lemma from_dataset_rank:
  assumes "0 < r" "n_modes < r"
  shows "\<exists>e. from_dataset d n_modes (Some r) ts sat psr ov l u sim = Inl e"
  using assms
  by (auto simp: from_dataset_def initial_weights_def Let_def split: sum.splits prod.splits)

text \<open>
  C7. Construction fails exactly on an invalid configuration. \<open>__init__\<close> raises for a
  loss name if and only if the name, lower-cased and stripped, is none of the four
  recognized spellings; with an unrecognized name the constructor returns an error and
  no model, with a recognized one (and a probe guess whose first mode has an entry) it
  returns a model. \<open>from_dataset\<close> raises the descriptive \<open>KeyError\<close> whenever a positive
  \<open>dm_rank\<close> exceeds \<open>n_modes\<close>; \<open>dm_rank = -1\<close> gives full-rank weight matrices
  (\<open>n_modes\<close> by \<open>n_modes\<close>), and \<open>dm_rank\<close> \<open>None\<close> or \<open>0\<close> gives one scalar weight per shot.
\<close>

theorem construction_errors:
  "((\<exists>e. select_loss s = Inl e) \<longleftrightarrow> strip (lower s) \<notin> recognized_losses) \<and>
   (strip (lower (arg_loss a)) \<notin> recognized_losses \<longrightarrow> (\<exists>e. FancyPtycho_init a = Inl e)) \<and>
   (strip (lower (arg_loss b)) \<in> recognized_losses \<and>
      (\<exists>pn. initial_probe_norm (arg_probe_guess b) = Inr pn)
       \<longrightarrow> (\<exists>m. FancyPtycho_init b = Inr m)) \<and>
   (0 < r \<and> n_modes < r \<longrightarrow>
       initial_weights n n_modes (Some r) =
         Inl (KeyError ''Density matrix rank cannot be greater than the number of modes. Use dm_rank = -1 to use a full rank matrix.'') \<and>
       (\<exists>e. from_dataset d n_modes (Some r) ts sat psr ov l u sim = Inl e)) \<and>
   (0 \<le> n_modes \<longrightarrow>
       initial_weights n n_modes (Some (- 1)) =
         Inr (Matrix_weights (replicate n (eye_rect (nat n_modes) (nat n_modes))))) \<and>
   initial_weights n n_modes None = Inr (Scalar_weights (replicate n 1)) \<and>
   initial_weights n n_modes (Some 0) = Inr (Scalar_weights (replicate n 1))"
proof (intro conjI impI)
  show "(\<exists>e. select_loss s = Inl e) \<longleftrightarrow> strip (lower s) \<notin> recognized_losses"
    by (rule select_loss_error_iff)
  show "\<exists>e. FancyPtycho_init a = Inl e" if "strip (lower (arg_loss a)) \<notin> recognized_losses"
    using that by (rule init_unrecognized)
  show "\<exists>m. FancyPtycho_init b = Inr m"
    if "strip (lower (arg_loss b)) \<in> recognized_losses \<and>
        (\<exists>pn. initial_probe_norm (arg_probe_guess b) = Inr pn)"
  proof -
    from that obtain pn where pn: "initial_probe_norm (arg_probe_guess b) = Inr pn" by blast
    from that init_error_iff [OF pn] have "\<not> (\<exists>e. FancyPtycho_init b = Inl e)" by simp
    then show ?thesis by (cases "FancyPtycho_init b") auto
  qed
  show "initial_weights n n_modes (Some r) =
         Inl (KeyError ''Density matrix rank cannot be greater than the number of modes. Use dm_rank = -1 to use a full rank matrix.'')"
    if "0 < r \<and> n_modes < r" using that by (simp add: initial_weights_def)
  show "\<exists>e. from_dataset d n_modes (Some r) ts sat psr ov l u sim = Inl e"
    if "0 < r \<and> n_modes < r"
    using that from_dataset_rank by blast
  show "initial_weights n n_modes (Some (- 1)) =
         Inr (Matrix_weights (replicate n (eye_rect (nat n_modes) (nat n_modes))))"
    if "0 \<le> n_modes"
    using that by (simp add: initial_weights_def)
  show "initial_weights n n_modes None = Inr (Scalar_weights (replicate n 1))"
    by (simp add: initial_weights_def)
  show "initial_weights n n_modes (Some 0) = Inr (Scalar_weights (replicate n 1))"
    by (simp add: initial_weights_def)
qed

lemma example_loss_lower: "strip (lower '' Poisson_NLL '') = ''poisson_nll''"
  by code_simp

lemma bad_loss_lower: "strip (lower ''Amplitude  MSE'') = ''amplitude  mse''"
  by code_simp

theorem construction_errors_witness:
  "(\<exists>e. select_loss ''Amplitude  MSE'' = Inl e) \<and>
   (\<exists>e. FancyPtycho_init (example_args\<lparr>arg_loss := ''Amplitude  MSE''\<rparr>) = Inl e) \<and>
   (\<exists>m. FancyPtycho_init example_args = Inr m) \<and>
   (\<exists>e. from_dataset example_prepared 1 (Some 2) 1 None None 1 ''amplitude mse'' ''um'' False = Inl e) \<and>
   initial_weights 2 1 (Some (- 1)) = Inr (Matrix_weights [[[1]], [[1]]])"
proof -
  have bad: "strip (lower ''Amplitude  MSE'') \<notin> recognized_losses"
    unfolding bad_loss_lower by (simp add: recognized_losses_def)
  have good: "strip (lower (arg_loss example_args)) \<in> recognized_losses"
    by (simp add: example_args_def example_loss_lower recognized_losses_def)
  have pn: "\<exists>pn. initial_probe_norm (arg_probe_guess example_args) = Inr pn"
    by (simp add: example_args_def initial_probe_norm_def tensor_max_def)
  have eye: "eye_rect (Suc 0) (Suc 0) = [[1]]"
    by (simp add: eye_rect_def)
  have two: "replicate 2 x = [x, x]" for x :: cmat
    by (simp add: numeral_2_eq_2)
  show ?thesis
    using construction_errors [of "''Amplitude  MSE''" "example_args\<lparr>arg_loss := ''Amplitude  MSE''\<rparr>"
        example_args 2 1 2 example_prepared 1 None None 1 "''amplitude mse''" "''um''" False]
      bad good pn
    by (simp add: eye two)
qed

section \<open>The pixel translations of the interaction\<close>

lemma init_example: "FancyPtycho_init example_args = Inr example_model"
  by (simp add: FancyPtycho_init_def example_args_def example_model_def initial_probe_norm_def
      tensor_max_def select_loss_def example_loss_lower tensor_div_def smul3_def smul2_def
      offsets_div_def shape2_def default_background_def ones2_def)

text \<open>
  C6. The interaction converts the translations to pixels through the probe basis and the
  surface normal (\<open>translations_to_pixel\<close>), subtracts the stored minimum translation,
  and, exactly when translation offsets exist, adds \<open>translation_scale\<close> times the offsets
  selected by the index batch; without offsets the shifted pixel translation is the
  result.
\<close>

theorem interaction_pixel_translation:
  "(translation_offsets m = None \<longrightarrow>
      interaction_pix_trans t2p m index tr =
        Inr (Finite (map (\<lambda>p. psub p (min_translation m))
                      (t2p (probe_basis m) tr (surface_normal m))))) \<and>
   (translation_offsets m' = Some (Finite os) \<and> py_take os index' = Inr sel \<and>
      length sel = length (t2p (probe_basis m') tr' (surface_normal m')) \<longrightarrow>
      interaction_pix_trans t2p m' index' tr' =
        Inr (Finite (map2 (\<lambda>p off. padd (psub p (min_translation m'))
                                       (pscale (translation_scale m') off))
                      (t2p (probe_basis m') tr' (surface_normal m')) sel)))"
  by (auto simp: interaction_pix_trans_def Let_def inplace_add_def tag_def zip_map1 zip_map2
      map_zip_map map_zip_map2 split: sum.splits)

theorem interaction_pixel_translation_witness:
  "interaction_pix_trans example_t2p (example_model\<lparr>translation_offsets := None\<rparr>) [0] [[5, 7]]
     = Inr (Finite [(4, 6)]) \<and>
   interaction_pix_trans example_t2p example_model [0] [[5, 7]] = Inr (Finite [(5, 8)])"
  using interaction_pixel_translation [of "example_model\<lparr>translation_offsets := None\<rparr>"
      example_t2p "[0]" "[[5, 7]]" example_model "[(1 / 2, 1)]" "[0]" "[(1 / 2, 1)]" "[[5, 7]]"]
  by (simp add: example_model_def example_t2p_def py_index_def psub_def padd_def pscale_def)

section \<open>The probe rescaling\<close>

lemma sequence_map_sum:
  "sequence (map (map_sum id h) rs) = map_sum id (map h) (sequence rs)"
  by (induction rs) (auto split: sum.splits)

lemma bcast_scale_left:
  assumes "\<And>x y. f (g x) y = map_sum id h (f x y)"
  shows "bcast f (map g xs) ys = map_sum id (map h) (bcast f xs ys)"
proof -
  have a: "map2 f (map g xs) ys = map (map_sum id h) (map2 f xs ys)"
    by (simp add: zip_map1 assms split_def)
  have b: "map (f (g x)) ys = map (map_sum id h) (map (f x) ys)" for x
    by (simp add: assms)
  have c: "map (\<lambda>x. f x y) (map g xs) = map (map_sum id h) (map (\<lambda>x. f x y) xs)" for y
    by (simp add: assms)
  have hd: "length xs = 1 \<Longrightarrow> hd (map g xs) = g (hd xs)"
    by (cases xs) auto
  show ?thesis
    unfolding bcast_def
    by (simp add: a b c hd sequence_map_sum del: map_map)
qed

lemma bcast_scale_right:
  assumes "\<And>x y. f x (g y) = map_sum id h (f x y)"
  shows "bcast f xs (map g ys) = map_sum id (map h) (bcast f xs ys)"
proof -
  have a: "map2 f xs (map g ys) = map (map_sum id h) (map2 f xs ys)"
    by (simp add: zip_map2 assms split_def)
  have b: "map (f x) (map g ys) = map (map_sum id h) (map (f x) ys)" for x
    by (simp add: assms)
  have c: "map (\<lambda>x. f x (g y)) xs = map (map_sum id h) (map (\<lambda>x. f x y) xs)" for y
    by (simp add: assms)
  have hd: "length ys = 1 \<Longrightarrow> hd (map g ys) = g (hd ys)"
    by (cases ys) auto
  show ?thesis
    unfolding bcast_def
    by (simp add: a b c hd sequence_map_sum del: map_map)
qed

lemma restrict_support_scale:
  "restrict_support s (smul3 c P) = map_sum id (smul3 c) (restrict_support s P)"
proof -
  have inner: "bcast (\<lambda>a b. Inr (if b then a else 0)) (map (\<lambda>z. c * z) row) srow
      = map_sum id (map (\<lambda>z. c * z)) (bcast (\<lambda>a b. Inr (if b then a else 0)) row srow)"
    for row :: cvec and srow :: "bool list"
    by (rule bcast_scale_left) simp
  have one: "bcast2 (\<lambda>z b. if b then z else 0) (smul2 c p) s
      = map_sum id (smul2 c) (bcast2 (\<lambda>z b. if b then z else 0) p s)" for p
    unfolding bcast2_def smul2_def
    by (rule bcast_scale_left) (rule inner)
  show ?thesis
    unfolding restrict_support_def smul3_def
    by (simp add: one o_def sequence_map_sum [symmetric])
qed

lemma map2_homomorphic:
  assumes "\<And>x y. f (g x) (g y) = h (f x y)"
  shows "map2 f (map g xs) (map g ys) = map h (map2 f xs ys)"
proof (induction xs arbitrary: ys)
  case Nil
  then show ?case by simp
next
  case (Cons x xs)
  then show ?case by (cases ys) (simp_all add: assms)
qed

lemma madd_scale: "madd (smul2 c A) (smul2 c B) = smul2 c (madd A B)"
proof -
  have row: "map2 (+) (map (\<lambda>z. c * z) r) (map (\<lambda>z. c * z) r') = map (\<lambda>z. c * z) (map2 (+) r r')"
    for r r' :: cvec
    by (rule map2_homomorphic) (simp add: distrib_left)
  show ?thesis
    unfolding madd_def smul2_def
    by (rule map2_homomorphic) (rule row)
qed

lemma foldl_madd_scale:
  "foldl madd (smul2 c M) (map (smul2 c) Ms) = smul2 c (foldl madd M Ms)"
  by (induction Ms arbitrary: M) (simp_all add: madd_scale)

lemma msum_scale: "msum (map (smul2 c) Ms) = smul2 c (msum Ms)"
proof (cases Ms)
  case Nil
  then show ?thesis by (simp add: msum_def smul2_def)
next
  case (Cons M Ms')
  then show ?thesis by (simp add: msum_def foldl_madd_scale)
qed

lemma smul2_commute: "smul2 a (smul2 b p) = smul2 b (smul2 a p)"
  by (simp add: smul2_def mult.left_commute)

lemma combine_row_scale:
  "combine_row (smul3 c B) w = map_sum id (smul2 c) (combine_row B w)"
proof -
  have "bcast (\<lambda>c' p. Inr (smul2 c' p)) w (map (smul2 c) B)
      = map_sum id (map (smul2 c)) (bcast (\<lambda>c' p. Inr (smul2 c' p)) w B)"
    by (rule bcast_scale_right) (simp add: smul2_commute)
  then show ?thesis
    unfolding combine_row_def smul3_def
    by (simp add: msum_scale split: sum.splits)
qed

lemma smul3_smul3: "smul3 a (smul3 b P) = smul3 (a * b) P"
  by (simp add: smul3_def smul2_def mult.assoc)

lemma smul4_smul4: "smul4 a (smul4 b E) = smul4 (a * b) E"
  by (simp add: smul4_def smul3_smul3)

lemma smul3_fn: "smul3 c = map (smul2 c)"
  by (rule ext) (simp add: smul3_def)

lemma smul4_fn: "smul4 c = map (smul3 c)"
  by (rule ext) (simp add: smul4_def)

lemma smul2_one: "smul2 1 A = A"
  by (simp add: smul2_def)

lemma smul3_one: "smul3 1 P = P"
  unfolding smul3_def by (rule map_idI) (rule smul2_one)

lemma smul4_one: "smul4 1 E = E"
  unfolding smul4_def by (rule map_idI) (rule smul3_one)

lemma shot_probes_scale:
  "shot_probes ws index (smul3 c B) = map_sum id (smul4 c) (shot_probes ws index B)"
proof (cases ws)
  case None
  then show ?thesis
    by (simp add: shot_probes_def smul4_def smul3_smul3 mult.commute)
next
  case (Some W)
  show ?thesis
  proof (cases W)
    case (Scalar_weights w)
    with Some show ?thesis
      by (simp add: shot_probes_def smul4_def smul3_smul3 mult.commute split: sum.splits)
  next
    case (Matrix_weights Wm)
    have fn: "combine_row (smul3 c B) = (\<lambda>w. map_sum id (smul2 c) (combine_row B w))"
      by (rule ext) (rule combine_row_scale)
    have row: "sequence (map (combine_row (smul3 c B)) Wn)
        = map_sum id (smul3 c) (sequence (map (combine_row B) Wn))" for Wn
    proof -
      have "sequence (map (combine_row (smul3 c B)) Wn)
          = sequence (map (map_sum id (smul2 c)) (map (combine_row B) Wn))"
        by (simp add: fn o_def)
      also have "\<dots> = map_sum id (map (smul2 c)) (sequence (map (combine_row B) Wn))"
        by (rule sequence_map_sum)
      finally show ?thesis by (simp add: smul3_fn)
    qed
    have all: "sequence (map (\<lambda>Wn. sequence (map (combine_row (smul3 c B)) Wn)) Ws)
        = map_sum id (smul4 c) (sequence (map (\<lambda>Wn. sequence (map (combine_row B) Wn)) Ws))" for Ws
    proof -
      have "sequence (map (\<lambda>Wn. sequence (map (combine_row (smul3 c B)) Wn)) Ws)
          = sequence (map (map_sum id (smul3 c))
              (map (\<lambda>Wn. sequence (map (combine_row B) Wn)) Ws))"
        by (simp add: row o_def)
      also have "\<dots> = map_sum id (map (smul3 c))
          (sequence (map (\<lambda>Wn. sequence (map (combine_row B) Wn)) Ws))"
        by (rule sequence_map_sum)
      finally show ?thesis by (simp add: smul4_fn)
    qed
    from Some Matrix_weights show ?thesis
      by (simp add: shot_probes_def all split: sum.splits)
  qed
qed

lemma apply_masks_scale:
  "apply_masks (smul4 c prs) masks = map_sum id (smul4 c) (apply_masks prs masks)"
proof -
  have inner: "bcast (\<lambda>a b. Inr (a * b)) (map (\<lambda>z. c * z) row) mrow
      = map_sum id (map (\<lambda>z. c * z)) (bcast (\<lambda>a b. Inr (a * b)) row mrow)"
    for row mrow :: cvec
    by (rule bcast_scale_left) (simp add: mult.assoc)
  have one: "bcast2 (*) (smul2 c p) mask = map_sum id (smul2 c) (bcast2 (*) p mask)" for p mask
    unfolding bcast2_def smul2_def
    by (rule bcast_scale_left) (rule inner)
  have modes: "sequence (map (\<lambda>p. bcast2 (*) p mask) (smul3 c ms))
      = map_sum id (smul3 c) (sequence (map (\<lambda>p. bcast2 (*) p mask) ms))" for ms mask
    unfolding smul3_def
    by (simp add: one o_def sequence_map_sum [symmetric])
  show ?thesis
    unfolding apply_masks_def smul4_def
    by (rule bcast_scale_left) (rule modes)
qed


lemma simulate_translation_scale:
  assumes "probe_basis m' = probe_basis m" "detector_basis m' = detector_basis m"
    "surface_normal m' = surface_normal m" "I_phase m' = I_phase m" "J_phase m' = J_phase m"
    "simulate_probe_translation m' = simulate_probe_translation m"
  shows "simulate_translation t2p m' tr (smul4 c prs)
     = map_sum id (ieee_map (smul4 c)) (simulate_translation t2p m tr prs)"
  using assms
  by (auto simp: simulate_translation_def apply_masks_scale tag_def
      split: option.splits sum.splits)

lemma fold_max_eq_Max: "fold max ys (x::real) = Max (set (x # ys))"
  by (rule Max.set_eq_fold [symmetric])

lemma probe_norm_zero_iff:
  assumes "initial_probe_norm P = Inr pn"
  shows "pn = 0 \<longleftrightarrow> (\<forall>z\<in>set (concat (hd P)). z = 0)"
proof -
  from assms obtain p0 rest where P: "P = p0 # rest"
    by (cases P) (auto simp: initial_probe_norm_def)
  from assms P obtain x ys where xs: "map cmod (concat p0) = x # ys" and pn: "pn = fold max ys x"
    by (cases "map cmod (concat p0)") (auto simp: initial_probe_norm_def tensor_max_def)
  have pn': "pn = Max (set (map cmod (concat p0)))"
    unfolding pn xs by (rule fold_max_eq_Max)
  have fin: "finite (set (map cmod (concat p0)))" and ne: "set (map cmod (concat p0)) \<noteq> {}"
    using xs by auto
  have nonneg: "\<forall>v\<in>set (map cmod (concat p0)). 0 \<le> v" by auto
  have "pn = 0 \<longleftrightarrow> (\<forall>v\<in>set (map cmod (concat p0)). v = 0)"
  proof
    assume "pn = 0"
    then have "\<forall>v\<in>set (map cmod (concat p0)). v \<le> 0"
      using Max_ge [OF fin] pn' by metis
    with nonneg show "\<forall>v\<in>set (map cmod (concat p0)). v = 0" by fastforce
  next
    assume all: "\<forall>v\<in>set (map cmod (concat p0)). v = 0"
    have "Max (set (map cmod (concat p0))) \<in> set (map cmod (concat p0))"
      using Max_in [OF fin ne] .
    with all show "pn = 0" unfolding pn' by blast
  qed
  then show ?thesis using P by auto
qed

lemma smul3_cancel: "n \<noteq> 0 \<Longrightarrow> smul3 (of_real n) (smul3 (1 / of_real n) P) = P"
  by (simp add: smul3_smul3 smul3_one)

text \<open>
  C10 (amended). The constructor stores the probe guess divided by \<open>probe_norm\<close>, the
  largest modulus in the first mode of the guess. For every probe guess whose first mode
  has a non-zero entry, and a model built with weights (so that \<open>save_results\<close> returns),
  the probe that \<open>save_results\<close> returns right after construction is the probe guess,
  and, \<open>ptycho_2D_sinc\<close> being homogeneous in the probes, the exit waves of the
  interaction are those of the model that holds the unscaled guess with
  \<open>probe_norm = 1\<close>.
\<close>

theorem probe_rescaling_invisible:
  assumes init: "FancyPtycho_init a = Inr m"
    and nz: "\<exists>z\<in>set (concat (hd (arg_probe_guess a))). z \<noteq> 0"
    and w: "arg_weights a \<noteq> None"
    and hom: "sinc_homogeneous sinc"
  shows "initial_probe_norm (arg_probe_guess a) = Inr (probe_norm m) \<and>
    probe m = Finite (smul3 (1 / of_real (probe_norm m)) (arg_probe_guess a)) \<and>
    saved_probe a = Inr (Finite (arg_probe_guess a)) \<and>
    interaction t2p sinc m index tr =
      interaction t2p sinc (m\<lparr>probe := Finite (arg_probe_guess a), probe_norm := 1\<rparr>) index tr"
proof -
  from init obtain pn l where pn: "initial_probe_norm (arg_probe_guess a) = Inr pn"
    and l: "select_loss (arg_loss a) = Inr l"
    by (auto simp: FancyPtycho_init_def split: sum.splits)
  from init pn l have norm: "probe_norm m = pn"
    and pr: "probe m = tensor_div (arg_probe_guess a) pn"
    and ws: "weights m = arg_weights a"
    by (auto simp: FancyPtycho_init_def Let_def split: prod.splits)
  from nz probe_norm_zero_iff [OF pn] have pn0: "pn \<noteq> 0" by blast
  let ?P = "arg_probe_guess a"
  let ?c = "1 / of_real pn :: complex"
  have pr': "probe m = Finite (smul3 ?c ?P)"
    using pr pn0 by (simp add: tensor_div_def)
  have saved: "saved_probe a = Inr (Finite ?P)"
    using w ws pr' norm pn0 init
    by (auto simp: saved_probe_def save_results_def tensor_mul_def tag_def smul3_cancel)
  let ?m1 = "m\<lparr>probe := Finite ?P, probe_norm := 1\<rparr>"
  have pix: "interaction_pix_trans t2p ?m1 index tr = interaction_pix_trans t2p m index tr"
    by (simp add: interaction_pix_trans_def Let_def split: option.splits sum.splits)
  have sim: "simulate_translation t2p m tr (smul4 ?c prs)
      = map_sum id (ieee_map (smul4 ?c)) (simulate_translation t2p ?m1 tr prs)" for prs
    by (rule simulate_translation_scale) simp_all
  have homo: "sinc (smul4 ?c prs) ob px = map_sum id (smul4 ?c) (sinc prs ob px)" for prs ob px
    using hom by (simp add: sinc_homogeneous_def)
  have cancel: "smul4 (of_real pn) (smul4 ?c E) = smul4 1 E" for E
    using pn0 by (simp add: smul4_smul4)
  have pay: "payload (ieee_map f x) = f (payload x)" for f :: "cmat list list \<Rightarrow> cmat list list" and x
    by (cases x) simp_all
  have fin: "is_finite (ieee_map f x) = is_finite x" for f :: "cmat list list \<Rightarrow> cmat list list" and x
    by (cases x) simp_all
  have inter: "interaction t2p sinc m index tr = interaction t2p sinc ?m1 index tr"
    unfolding interaction_def pix
    by (simp add: pr' norm restrict_support_scale shot_probes_scale sim homo cancel pay fin
        split: sum.splits)
  from pn norm pr' saved inter show ?thesis by simp
qed

lemma map2_left_homomorphic:
  assumes "\<And>x y. f (g x) y = h (f x y)"
  shows "map2 f (map g xs) ys = map h (map2 f xs ys)"
  by (simp add: zip_map1 split_def assms)

lemma example_sinc_homogeneous: "sinc_homogeneous example_sinc"
proof -
  have row: "map2 (*) (map (\<lambda>z. c * z) r) r' = map (\<lambda>z. c * z) (map2 (*) r r')"
    for c :: complex and r r'
    by (rule map2_left_homomorphic) (simp add: mult.assoc)
  have mode: "map2 (map2 (*)) (smul2 c p) ob = smul2 c (map2 (map2 (*)) p ob)" for c p ob
    unfolding smul2_def by (rule map2_left_homomorphic) (rule row)
  show ?thesis
    by (simp add: sinc_homogeneous_def example_sinc_def smul4_def smul3_def mode)
qed

theorem probe_rescaling_invisible_witness:
  "saved_probe example_args = Inr (Finite [[[2, 1]], [[0, 1]]]) \<and>
   interaction example_t2p example_sinc example_model [0] [[5, 7]] =
     interaction example_t2p example_sinc
       (example_model\<lparr>probe := Finite [[[2, 1]], [[0, 1]]], probe_norm := 1\<rparr>) [0] [[5, 7]] \<and>
   interaction example_t2p example_sinc example_model [0] [[5, 7]] =
     Inr (Finite [[[[2, 1]], [[0, 1]]]])"
proof -
  have nz: "\<exists>z\<in>set (concat (hd (arg_probe_guess example_args))). z \<noteq> 0"
    by (simp add: example_args_def)
  have w: "arg_weights example_args \<noteq> None"
    by (simp add: example_args_def)
  have val: "interaction example_t2p example_sinc example_model [0] [[5, 7]] =
     Inr (Finite [[[[2, 1]], [[0, 1]]]])"
    by (simp add: interaction_def interaction_pix_trans_def example_model_def example_t2p_def
        example_sinc_def py_index_def inplace_add_def tag_def restrict_support_def bcast2_def
        bcast_def shot_probes_def simulate_translation_def smul4_def smul3_def smul2_def
        psub_def padd_def pscale_def)
  show ?thesis
    using probe_rescaling_invisible [OF init_example nz w example_sinc_homogeneous,
        of example_t2p "[0]" "[[5, 7]]"] val
    by (simp add: example_args_def)
qed

text \<open>
  With a first mode that is zero everywhere, \<open>probe_norm\<close> is zero, the stored probe is the
  guess divided by zero, and \<open>save_results\<close> returns a probe without a finite entry.
\<close>

theorem probe_rescaling_counterexample:
  "map_sum id is_finite (saved_probe (example_args\<lparr>arg_probe_guess := [[[0]], [[1]]]\<rparr>)) = Inr False \<and>
   saved_probe (example_args\<lparr>arg_probe_guess := [[[0]], [[1]]]\<rparr>)
     \<noteq> Inr (Finite (arg_probe_guess (example_args\<lparr>arg_probe_guess := [[[0]], [[1]]]\<rparr>)))"
  by (simp add: saved_probe_def FancyPtycho_init_def example_args_def initial_probe_norm_def
      tensor_max_def select_loss_def example_loss_lower tensor_div_def save_results_def
      tensor_mul_def tag_def shape2_def Let_def)

section \<open>Exit waves at whole-pixel translations\<close>

lemma t2_bin_same_shape:
  assumes "has_shape ((h, w), A)" "has_shape ((h, w), B)"
  shows "t2_bin f ((h, w), A) ((h, w), B) = Inr ((h, w), map2 (map2 f) A B)"
proof -
  from assms have lA: "length A = h" and lB: "length B = h"
    and rA: "\<And>i. i < h \<Longrightarrow> length (A ! i) = w" and rB: "\<And>i. i < h \<Longrightarrow> length (B ! i) = w"
    by (auto simp: has_shape_def list_all_length)
  have idx: "bidx n i = i" if "i < n" for n i
    using that by (auto simp: bidx_def)
  have "map (\<lambda>i. map (\<lambda>j. f (A ! bidx h i ! bidx w j) (B ! bidx h i ! bidx w j)) [0..<w]) [0..<h]
      = map2 (map2 f) A B"
  proof (rule nth_equalityI)
    show "length (map (\<lambda>i. map (\<lambda>j. f (A ! bidx h i ! bidx w j) (B ! bidx h i ! bidx w j)) [0..<w]) [0..<h])
        = length (map2 (map2 f) A B)"
      by (simp add: lA lB)
  next
    fix i assume "i < length (map (\<lambda>i. map (\<lambda>j. f (A ! bidx h i ! bidx w j) (B ! bidx h i ! bidx w j)) [0..<w]) [0..<h])"
    then have i: "i < h" by simp
    have "map (\<lambda>j. f (A ! i ! bidx w j) (B ! i ! bidx w j)) [0..<w] = map2 f (A ! i) (B ! i)"
      by (rule nth_equalityI) (simp_all add: rA [OF i] rB [OF i] idx)
    then show "map (\<lambda>i. map (\<lambda>j. f (A ! bidx h i ! bidx w j) (B ! bidx h i ! bidx w j)) [0..<w]) [0..<h] ! i
        = map2 (map2 f) A B ! i"
      using i by (simp add: lA lB idx)
  qed
  then show ?thesis
    by (simp add: t2_bin_def bshape_def)
qed

lemma map2_add_zero:
  assumes "has_shape ((h, w), A)" "has_shape ((h, w), B)"
  shows "map2 (map2 (+)) A (smul2 0 B) = A"
proof -
  from assms have lA: "length A = h" and lB: "length B = h"
    and rA: "\<And>i. i < h \<Longrightarrow> length (A ! i) = w" and rB: "\<And>i. i < h \<Longrightarrow> length (B ! i) = w"
    by (auto simp: has_shape_def list_all_length)
  show ?thesis
  proof (rule nth_equalityI)
    show "length (map2 (map2 (+)) A (smul2 0 B)) = length A"
      by (simp add: smul2_def lA lB)
  next
    fix i assume "i < length (map2 (map2 (+)) A (smul2 0 B))"
    then have i: "i < h" by (simp add: smul2_def lA lB)
    have "map2 (+) (A ! i) (map (\<lambda>z. 0 * z) (B ! i)) = A ! i"
      by (rule nth_equalityI) (simp_all add: rA [OF i] rB [OF i])
    then show "map2 (map2 (+)) A (smul2 0 B) ! i = A ! i"
      using i by (simp add: smul2_def lA lB)
  qed
qed

lemma has_shape_smul2: "has_shape ((h, w), A) \<Longrightarrow> has_shape ((h, w), smul2 c A)"
  by (auto simp: has_shape_def smul2_def list_all_iff)

lemma slice_bound_nat: "0 \<le> i \<Longrightarrow> nat i \<le> n \<Longrightarrow> slice_bound n i = nat i"
  by (simp add: slice_bound_def)

lemma py_slice_inside:
  assumes "0 \<le> a" "nat a + h \<le> length xs"
  shows "py_slice a (a + int h) xs = take h (drop (nat a) xs)"
proof -
  have 1: "slice_bound (length xs) a = nat a"
    using assms by (simp add: slice_bound_nat)
  have 2: "slice_bound (length xs) (a + int h) = nat a + h"
    using assms by (simp add: slice_bound_def nat_add_distrib)
  show ?thesis
    by (simp add: py_slice_def 1 2)
qed

lemma select_inside:
  assumes rect: "rectangular ob"
    and a: "0 \<le> a" "nat a + h \<le> fst (shape2 ob)"
    and c: "0 \<le> c" "nat c + w \<le> snd (shape2 ob)"
  shows "select ob (a, a + int h) (c, c + int w) = ((h, w), window ob (nat a) (nat c) h w)"
    and "has_shape ((h, w), window ob (nat a) (nat c) h w)"
proof -
  have H: "fst (shape2 ob) = length ob" by (simp add: shape2_def)
  have rows: "\<And>row. row \<in> set ob \<Longrightarrow> length row = snd (shape2 ob)"
    using rect by (auto simp: rectangular_def list_all_iff)
  have l1: "slice_len (length ob) a (a + int h) = h"
    using a by (simp add: slice_len_def slice_bound_def H nat_add_distrib)
  have l2: "slice_len (snd (shape2 ob)) c (c + int w) = w"
    using c by (simp add: slice_len_def slice_bound_def nat_add_distrib)
  have r: "py_slice a (a + int h) ob = take h (drop (nat a) ob)"
    using a by (simp add: py_slice_inside H)
  have sub: "set (take h (drop (nat a) ob)) \<subseteq> set ob"
    by (meson set_take_subset set_drop_subset subset_trans)
  have cols: "map (py_slice c (c + int w)) (take h (drop (nat a) ob))
      = map (\<lambda>row. take w (drop (nat c) row)) (take h (drop (nat a) ob))"
  proof (rule map_cong [OF refl])
    fix row assume "row \<in> set (take h (drop (nat a) ob))"
    with sub have "row \<in> set ob" by blast
    then have "length row = snd (shape2 ob)" by (rule rows)
    with c show "py_slice c (c + int w) row = take w (drop (nat c) row)"
      by (simp add: py_slice_inside)
  qed
  show "select ob (a, a + int h) (c, c + int w) = ((h, w), window ob (nat a) (nat c) h w)"
    by (simp add: select_def py_slice2_def H l1 l2 r cols window_def)
  have "length (window ob (nat a) (nat c) h w) = h"
    using a by (simp add: window_def H)
  moreover have "length row' = w" if "row' \<in> set (window ob (nat a) (nat c) h w)" for row'
  proof -
    from that obtain row where "row \<in> set (take h (drop (nat a) ob))"
      and row': "row' = take w (drop (nat c) row)"
      by (auto simp: window_def)
    with sub have "length row = snd (shape2 ob)" using rows by blast
    with c row' show ?thesis by simp
  qed
  ultimately show "has_shape ((h, w), window ob (nat a) (nat c) h w)"
    by (simp add: has_shape_def list_all_iff)
qed


lemma selection_whole_pixels:
  assumes rect: "rectangular ob"
    and tr: "whole_pixels_inside (h, w) (shape2 ob) tr"
    and small: "fst (shape2 ob) < 2 ^ 31" "snd (shape2 ob) < 2 ^ 31"
  shows "selection (h, w) ob tr = Inr ((h, w), window ob (nat \<lfloor>fst tr\<rfloor>) (nat \<lfloor>snd tr\<rfloor>) h w)"
proof -
  let ?i = "\<lfloor>fst tr\<rfloor>" and ?j = "\<lfloor>snd tr\<rfloor>"
  from tr have whole: "of_int ?i = fst tr" "of_int ?j = snd tr"
    and i: "0 \<le> ?i" "?i + int h + 1 \<le> int (fst (shape2 ob))"
    and j: "0 \<le> ?j" "?j + int w + 1 \<le> int (snd (shape2 ob))"
    unfolding whole_pixels_inside_def fst_conv snd_conv by blast+
  from whole have sp: "fst tr - of_int ?i = 0" "snd tr - of_int ?j = 0"
    by linarith+
  have ok: "int32_ok ?i" "int32_ok ?j" "int32_ok (?i + 1 + int h)" "int32_ok (?j + 1 + int w)"
  proof -
    from small have "int (fst (shape2 ob)) < 2 ^ 31" "int (snd (shape2 ob)) < 2 ^ 31"
      by simp_all
    with i j show "int32_ok ?i" "int32_ok ?j" "int32_ok (?i + 1 + int h)"
      "int32_ok (?j + 1 + int w)"
      unfolding int32_ok_def by (linarith+)
  qed
  have i': "nat ?i + h \<le> fst (shape2 ob)" "nat (?i + 1) + h \<le> fst (shape2 ob)" "0 \<le> ?i + 1"
    using i by (linarith+)
  have j': "nat ?j + w \<le> snd (shape2 ob)" "nat (?j + 1) + w \<le> snd (shape2 ob)" "0 \<le> ?j + 1"
    using j by (linarith+)
  note s00 = select_inside [OF rect i(1) i'(1) j(1) j'(1)]
  note s01 = select_inside [OF rect i(1) i'(1) j'(3) j'(2)]
  note s10 = select_inside [OF rect i'(3) i'(2) j(1) j'(1)]
  note s11 = select_inside [OF rect i'(3) i'(2) j'(3) j'(2)]
  let ?A = "window ob (nat ?i) (nat ?j) h w"
  have step: "t2_bin (+) ((h, w), ?A) ((h, w), smul2 0 B) = Inr ((h, w), ?A)"
    if "has_shape ((h, w), B)" for B
    using t2_bin_same_shape [OF s00(2) has_shape_smul2 [OF that], of "(+)" 0]
      map2_add_zero [OF s00(2) that]
    by simp
  have z: "smul2 0 (smul2 0 B) = smul2 0 B" "smul2 1 B = B" for B
    by (simp_all add: smul2_def)
  show ?thesis
    unfolding selection_def Let_def
    by (simp add: ok sp s00(1) s01(1) s10(1) s11(1) t2_scale_def z raised_def
        step [OF s01(2)] step [OF s10(2)] step [OF s11(2)])
qed

lemma out_sequence_all:
  assumes "\<And>x. x \<in> set xs \<Longrightarrow> f x = Inr (g x)"
  shows "out_sequence (map f xs) = Inr (map g xs)"
  using assms by (induction xs) simp_all

lemma sequence_all:
  assumes "\<And>x. x \<in> set xs \<Longrightarrow> f x = Inr (g x)"
  shows "sequence (map f xs) = Inr (map g xs)"
  using assms by (induction xs) simp_all

text \<open>
  C5 (amended). For a rectangular probe and object (object sides below \<open>2^31\<close>) and a
  non-empty list of translations by whole, non-negative numbers of pixels such that the
  window and the windows one pixel further down and to the right lie inside the object
  (offset + probe size + 1 \<open>\<le>\<close> object size along each axis), \<open>get_exit_waves\<close> returns, for each
  translation, the probe multiplied entry by entry (\<open>cmult\<close>) with the plain window of the
  object at that offset.
\<close>

theorem exit_waves_whole_pixels:
  assumes rect: "rectangular ob" and prect: "rectangular pr"
    and ne: "trs \<noteq> []"
    and tr: "list_all (whole_pixels_inside (shape2 pr) (shape2 ob)) trs"
    and small: "fst (shape2 ob) < 2 ^ 31" "snd (shape2 ob) < 2 ^ 31"
  shows "get_exit_waves cm pr ob trs =
    Inr (map (\<lambda>t. map2 (map2 cm) pr
                (window ob (nat \<lfloor>fst t\<rfloor>) (nat \<lfloor>snd t\<rfloor>) (fst (shape2 pr)) (snd (shape2 pr))))
           trs)"
proof -
  obtain h w where hw: "shape2 pr = (h, w)" by (cases "shape2 pr")
  let ?win = "\<lambda>t. window ob (nat \<lfloor>fst t\<rfloor>) (nat \<lfloor>snd t\<rfloor>) h w"
  have pshape: "has_shape ((h, w), pr)"
    using prect hw by (auto simp: has_shape_def rectangular_def shape2_def)
  have sel: "selection (h, w) ob t = Inr ((h, w), ?win t)" if "t \<in> set trs" for t
    using tr that small by (auto simp: list_all_iff hw intro: selection_whole_pixels [OF rect])
  have wshape: "has_shape ((h, w), ?win t)" if "t \<in> set trs" for t
  proof -
    from tr that have t: "whole_pixels_inside (h, w) (shape2 ob) t"
      by (auto simp: list_all_iff hw)
    then have "0 \<le> \<lfloor>fst t\<rfloor>" "nat \<lfloor>fst t\<rfloor> + h \<le> fst (shape2 ob)"
      "0 \<le> \<lfloor>snd t\<rfloor>" "nat \<lfloor>snd t\<rfloor> + w \<le> snd (shape2 ob)"
      unfolding whole_pixels_inside_def fst_conv snd_conv by (linarith+)
    then show ?thesis by (rule select_inside(2) [OF rect])
  qed
  have sels: "out_sequence (map (selection (h, w) ob) trs)
      = Inr (map (\<lambda>t. ((h, w), ?win t)) trs)"
    by (rule out_sequence_all) (rule sel)
  have prods: "sequence (map (\<lambda>t. t2_bin cm ((h, w), pr) ((h, w), ?win t)) trs)
      = Inr (map (\<lambda>t. ((h, w), map2 (map2 cm) pr (?win t))) trs)"
    by (rule sequence_all) (simp add: t2_bin_same_shape [OF pshape wshape])
  have st: "stack (map (\<lambda>t. ((h, w), map2 (map2 cm) pr (?win t))) trs)
      = Inr (map (\<lambda>t. map2 (map2 cm) pr (?win t)) trs)"
    using ne by (cases trs) (simp_all add: stack_def list_all_iff o_def)
  show ?thesis
    by (simp add: get_exit_waves_def hw sels o_def prods st raised_def)
qed

theorem exit_waves_whole_pixels_witness:
  "get_exit_waves (*) [[1, 2]] [[1, 2, 3, 4], [5, 6, 7, 8]] [(0, 1), (0, 0)]
     = Inr [[[2, 6]], [[1, 4]]]"
proof -
  have "rectangular [[1, 2, 3, 4], [5, 6, 7, 8 :: complex]]" "rectangular [[1, 2 :: complex]]"
    by (simp_all add: rectangular_def shape2_def)
  moreover have "list_all (whole_pixels_inside (shape2 [[1, 2 :: complex]])
      (shape2 [[1, 2, 3, 4], [5, 6, 7, 8 :: complex]])) [(0, 1), (0, 0)]"
    by (simp add: whole_pixels_inside_def shape2_def)
  moreover have "fst (shape2 [[1, 2, 3, 4], [5, 6, 7, 8 :: complex]]) < 2 ^ 31"
    "snd (shape2 [[1, 2, 3, 4], [5, 6, 7, 8 :: complex]]) < 2 ^ 31"
    by (simp_all add: shape2_def)
  ultimately show ?thesis
    using exit_waves_whole_pixels [of "[[1, 2, 3, 4], [5, 6, 7, 8]]" "[[1, 2]]"
        "[(0, 1), (0, 0)]" "(*)"]
    by (simp add: shape2_def window_def)
qed

text \<open>
  A window that lies inside the object but touches its last row and column: the
  neighbouring selections are smaller, and their sum raises.
\<close>

theorem exit_waves_counterexample:
  "get_exit_waves (*) [[1, 1, 1], [1, 1, 1], [1, 1, 1]]
     [[1, 2, 3], [4, 5, 6], [7, 8, 9]] [(0, 0)] = Inl (Raised RuntimeError)"
  by (simp add: get_exit_waves_def selection_def Let_def int32_ok_def select_def shape2_def
      slice_len_def slice_bound_def py_slice2_def py_slice_def t2_scale_def t2_bin_def bshape_def
      raised_def)

section \<open>Bounds of the predicted intensity\<close>

lemma sequence_Inr:
  "sequence rs = Inr zs \<Longrightarrow> rs = map Inr zs"
  by (induction rs arbitrary: zs) (auto split: sum.splits)

lemma bcast_elems:
  assumes "bcast f xs ys = Inr zs" "z \<in> set zs"
  shows "\<exists>x\<in>set xs. \<exists>y\<in>set ys. f x y = Inr z"
proof -
  consider (eq) "length xs = length ys" "sequence (map2 f xs ys) = Inr zs"
    | (l) "length xs = 1" "sequence (map (f (hd xs)) ys) = Inr zs"
    | (r) "length ys = 1" "sequence (map (\<lambda>x. f x (hd ys)) xs) = Inr zs"
    using assms(1) by (auto simp: bcast_def split: if_splits)
  then show ?thesis
  proof cases
    case eq
    from sequence_Inr [OF eq(2)] assms(2) have "Inr z \<in> set (map2 f xs ys)" by simp
    then obtain x y where "(x, y) \<in> set (zip xs ys)" "f x y = Inr z" by auto
    then show ?thesis by (meson set_zip_leftD set_zip_rightD)
  next
    case l
    from sequence_Inr [OF l(2)] assms(2) have "Inr z \<in> set (map (f (hd xs)) ys)" by simp
    then obtain y where "y \<in> set ys" "f (hd xs) y = Inr z" by auto
    moreover from l(1) have "hd xs \<in> set xs" by (cases xs) auto
    ultimately show ?thesis by blast
  next
    case r
    from sequence_Inr [OF r(2)] assms(2) have "Inr z \<in> set (map (\<lambda>x. f x (hd ys)) xs)" by simp
    then obtain x where "x \<in> set xs" "f x (hd ys) = Inr z" by auto
    moreover from r(1) have "hd ys \<in> set ys" by (cases ys) auto
    ultimately show ?thesis by blast
  qed
qed

lemma bcast2_elems:
  assumes "bcast2 f A B = Inr C" "z \<in> set (concat C)"
  shows "\<exists>a\<in>set (concat A). \<exists>b\<in>set (concat B). z = f a b"
proof -
  from assms(2) obtain row where row: "row \<in> set C" "z \<in> set row" by auto
  from bcast_elems [OF assms(1) [unfolded bcast2_def] row(1)]
  obtain ra rb where r: "ra \<in> set A" "rb \<in> set B" "bcast (\<lambda>a b. Inr (f a b)) ra rb = Inr row"
    by blast
  from bcast_elems [OF r(3) row(2)] obtain a b where "a \<in> set ra" "b \<in> set rb" "z = f a b"
    by auto
  with r show ?thesis by auto
qed


lemma map2_add_nonneg:
  assumes "\<forall>x\<in>set r. 0 \<le> (x::real)" "\<forall>x\<in>set r'. 0 \<le> x"
  shows "\<forall>x\<in>set (map2 (+) r r'). 0 \<le> x"
proof
  fix x assume "x \<in> set (map2 (+) r r')"
  then obtain a b where ab: "(a, b) \<in> set (zip r r')" "x = a + b" by auto
  then have "a \<in> set r" "b \<in> set r'" by (meson set_zip_leftD set_zip_rightD)+
  with assms ab show "0 \<le> x" by simp
qed

lemma radd_nonneg: "nonneg A \<Longrightarrow> nonneg B \<Longrightarrow> nonneg (radd A B)"
proof -
  assume A: "nonneg A" and B: "nonneg B"
  have "\<forall>x\<in>set row. 0 \<le> x" if "row \<in> set (radd A B)" for row
  proof -
    from that obtain ra rb where "(ra, rb) \<in> set (zip A B)" "row = map2 (+) ra rb"
      by (auto simp: radd_def)
    moreover then have "ra \<in> set A" "rb \<in> set B"
      by (meson set_zip_leftD set_zip_rightD)+
    ultimately show ?thesis
      using A B map2_add_nonneg [of ra rb] by (auto simp: nonneg_def)
  qed
  then show ?thesis by (auto simp: nonneg_def)
qed

lemma foldl_radd_nonneg:
  "nonneg I \<Longrightarrow> (\<forall>J\<in>set Js. nonneg J) \<Longrightarrow> nonneg (foldl radd I Js)"
  by (induction Js arbitrary: I) (simp_all add: radd_nonneg)

lemma incoherent_sum_nonneg: "nonneg (incoherent_sum sl modes)"
proof -
  have "nonneg (map (map abs2) p)" for p
    by (auto simp: nonneg_def abs2_def)
  then show ?thesis
    by (auto simp: incoherent_sum_def Let_def nonneg_def [of "[]"] intro!: foldl_radd_nonneg
        split: list.splits)
qed


lemma chunks_elems: "c \<in> set (chunks n xs) \<Longrightarrow> set c \<subseteq> set xs \<and> (0 < n \<longrightarrow> c \<noteq> [])"
proof -
  assume "c \<in> set (chunks n xs)"
  then obtain k where k: "k < length xs div n" and c: "c = take n (drop (k * n) xs)"
    by (auto simp: chunks_def)
  have sub: "set c \<subseteq> set xs"
    unfolding c by (meson set_take_subset set_drop_subset subset_trans)
  have "c \<noteq> []" if "0 < n"
  proof -
    from k have "Suc k * n \<le> (length xs div n) * n"
      by (intro mult_le_mono1) simp
    also have "\<dots> \<le> length xs" by simp
    finally have "k * n < length xs" using that by simp
    with that show ?thesis unfolding c by simp
  qed
  with sub show ?thesis by blast
qed

lemma foldl_add_nonneg:
  "(\<forall>x\<in>set r. 0 \<le> (x::real)) \<Longrightarrow> (\<forall>r'\<in>set rs. \<forall>x\<in>set r'. 0 \<le> x)
     \<Longrightarrow> \<forall>x\<in>set (foldl (map2 (+)) r rs). 0 \<le> x"
proof (induction rs arbitrary: r)
  case Nil
  then show ?case by simp
next
  case (Cons r' rs)
  have 1: "\<forall>x\<in>set (map2 (+) r r'). 0 \<le> x"
    using Cons.prems by (intro map2_add_nonneg) auto
  have 2: "\<forall>r'\<in>set rs. \<forall>x\<in>set r'. 0 \<le> x"
    using Cons.prems(2) by simp
  show ?case
    unfolding foldl_Cons by (rule Cons.IH [OF 1 2])
qed

lemma in_concat_map: "x \<in> set (concat (map f xs)) \<Longrightarrow> \<exists>y\<in>set xs. x \<in> set (f y)"
  by auto

lemma in_map: "x \<in> set (map f xs) \<Longrightarrow> \<exists>y\<in>set xs. x = f y"
  by auto

lemma bin2_nonneg:
  assumes "nonneg A" "0 < n"
  shows "nonneg (bin2 n average A)"
proof -
  have "0 \<le> x" if x: "x \<in> set (concat (bin2 n average A))" for x
  proof -
    from x obtain rows where rows: "rows \<in> set (chunks n A)"
      and xr: "x \<in> set (map (\<lambda>block. if average then sum_list block / real (n * n)
                  else sum_list block) (chunks n (foldl (map2 (+)) (hd rows) (tl rows))))"
      unfolding bin2_def by (blast dest: in_concat_map)
    from xr obtain block where
      block: "block \<in> set (chunks n (foldl (map2 (+)) (hd rows) (tl rows)))"
      and xv: "x = (if average then sum_list block / real (n * n) else sum_list block)"
      by (blast dest: in_map)
    from chunks_elems [OF rows] assms(2) have sub: "set rows \<subseteq> set A" and ne: "rows \<noteq> []"
      by auto
    have rowsnn: "\<forall>r\<in>set rows. \<forall>v\<in>set r. 0 \<le> v"
      using sub assms(1) by (auto simp: nonneg_def)
    have "hd rows \<in> set rows" "set (tl rows) \<subseteq> set rows"
      using ne by (auto dest: list.set_sel(2))
    with rowsnn have "\<forall>v\<in>set (foldl (map2 (+)) (hd rows) (tl rows)). 0 \<le> v"
      by (intro foldl_add_nonneg) auto
    with chunks_elems [OF block] have "\<forall>v\<in>set block. 0 \<le> v" by blast
    then have "0 \<le> sum_list block" by (simp add: sum_list_nonneg)
    then show ?thesis unfolding xv by simp
  qed
  then show ?thesis by (simp add: nonneg_def)
qed

lemma quadratic_background_nonneg:
  assumes "quadratic_background average modes bg sl sat os = Inr I"
    and "sat = None \<or> 0 \<le> the sat"
  shows "nonneg I"
proof -
  from assms(1) obtain I0 where I0: "bcast2 (\<lambda>x b. x + b\<^sup>2) (incoherent_sum sl modes) bg = Inr I0"
    and I: "I = (let I' = (if os > 1 then bin2 os average I0 else I0)
                 in case sat of None \<Rightarrow> I' | Some S \<Rightarrow> map (map (\<lambda>x. min x S)) I')"
    by (auto simp: quadratic_background_def Let_def split: sum.splits)
  have "nonneg I0"
    unfolding nonneg_def
  proof
    fix z assume "z \<in> set (concat I0)"
    from bcast2_elems [OF I0 this] obtain a b where
      "a \<in> set (concat (incoherent_sum sl modes))" "z = a + b\<^sup>2" by blast
    with incoherent_sum_nonneg [of sl modes] show "0 \<le> z" by (auto simp: nonneg_def)
  qed
  then have I': "nonneg (if os > 1 then bin2 os average I0 else I0)"
    by (simp add: bin2_nonneg)
  show ?thesis
  proof (cases sat)
    case None
    with I I' show ?thesis by (simp add: Let_def)
  next
    case (Some S)
    with assms(2) have "0 \<le> S" by simp
    with I I' Some show ?thesis by (auto simp: Let_def nonneg_def)
  qed
qed

lemma quadratic_background_saturated:
  assumes "quadratic_background average modes bg sl (Some S) os = Inr I"
  shows "\<forall>x\<in>set (concat I). x \<le> S"
  using assms by (auto simp: quadratic_background_def Let_def split: sum.splits)

text \<open>
  C3 (amended). Whenever the measurement returns, every pixel of the predicted intensity
  is non-negative provided no saturation is configured or the saturation value is
  non-negative, and with a saturation value \<open>S\<close> every pixel is at most \<open>S\<close>.
\<close>

theorem measurement_bounds:
  assumes "measurement average m wavefields = Inr Is"
  shows "(saturation m = None \<or> 0 \<le> the (saturation m) \<longrightarrow> (\<forall>x\<in>set (pixels Is). 0 \<le> x)) \<and>
         (\<forall>S. saturation m = Some S \<longrightarrow> (\<forall>x\<in>set (pixels Is). x \<le> S))"
proof -
  have each: "\<exists>modes. quadratic_background average modes (background m) (detector_slice m)
      (saturation m) (oversampling m) = Inr I" if "I \<in> set Is" for I
  proof -
    from sequence_Inr [OF assms [unfolded measurement_def]] that
    have "Inr I \<in> set (map (\<lambda>modes. quadratic_background average modes (background m)
        (detector_slice m) (saturation m) (oversampling m)) wavefields)" by simp
    then show ?thesis by auto
  qed
  have a: "\<forall>x\<in>set (pixels Is). 0 \<le> x" if "saturation m = None \<or> 0 \<le> the (saturation m)"
  proof
    fix x assume "x \<in> set (pixels Is)"
    then obtain I where I: "I \<in> set Is" "x \<in> set (concat I)" by (auto simp: pixels_def)
    from each [OF I(1)] quadratic_background_nonneg [OF _ that] have "nonneg I" by blast
    with I(2) show "0 \<le> x" by (auto simp: nonneg_def)
  qed
  have b: "\<forall>x\<in>set (pixels Is). x \<le> S" if "saturation m = Some S" for S
  proof
    fix x assume "x \<in> set (pixels Is)"
    then obtain I where I: "I \<in> set Is" "x \<in> set (concat I)" by (auto simp: pixels_def)
    from each [OF I(1)] that obtain modes where
      "quadratic_background average modes (background m) (detector_slice m) (Some S)
         (oversampling m) = Inr I" by auto
    from quadratic_background_saturated [OF this] I(2) show "x \<le> S" by blast
  qed
  from a b show ?thesis by blast
qed


theorem measurement_bounds_witness:
  "measurement False (example_model\<lparr>saturation := Some 1, background := [[0, 0]]\<rparr>) [[[[1, \<i>]], [[0, 1 / 2]]]]
     = Inr [[[1, 1]]] \<and>
   list_all (\<lambda>x. 0 \<le> x \<and> x \<le> 1) (pixels [[[1, 1]]])"
proof -
  have v0: "incoherent_sum None [[[1, \<i>]], [[0, 1 / 2]]] = [[1, 5 / 4]]"
    by (simp add: incoherent_sum_def radd_def abs2_def power2_eq_square)
  have val: "measurement False (example_model\<lparr>saturation := Some 1, background := [[0, 0]]\<rparr>) [[[[1, \<i>]], [[0, 1 / 2]]]]
     = Inr [[[1, 1]]]"
    by (simp add: measurement_def quadratic_background_def v0 bcast2_def bcast_def
        example_model_def min_def)
  from measurement_bounds [OF val] show ?thesis
    using val by (simp add: list_all_iff)
qed

text \<open>With a negative saturation value the clipped intensity is negative.\<close>

theorem measurement_counterexample:
  "measurement False (example_model\<lparr>saturation := Some (- 1), background := [[0, 0]]\<rparr>) [[[[1, \<i>]], [[0, 1 / 2]]]]
     = Inr [[[- 1, - 1]]]"
proof -
  have v0: "incoherent_sum None [[[1, \<i>]], [[0, 1 / 2]]] = [[1, 5 / 4]]"
    by (simp add: incoherent_sum_def radd_def abs2_def power2_eq_square)
  show ?thesis
    by (simp add: measurement_def quadratic_background_def v0 bcast2_def bcast_def
        example_model_def min_def)
qed

section \<open>Negative eigenvalues\<close>

lemma clip_eigenvalues_idem: "clip_eigenvalues (map (\<lambda>x. max x 0) ev) = clip_eigenvalues ev"
  by (simp add: clip_eigenvalues_def rev_map)

lemma shot_weights_clipped: "shot_weights (clipped eigh) r rho = shot_weights eigh r rho"
  by (cases "eigh rho") (auto simp: shot_weights_def clipped_def clip_eigenvalues_idem)

lemma orthogonalize_probes_clipped:
  "orthogonalize_probes (clipped eigh) svd pinv P d nz = orthogonalize_probes eigh svd pinv P d nz"
proof -
  let ?D = "case d of None \<Rightarrow> eye (length P) | Some d' \<Rightarrow> d'"
  show ?thesis
  proof (cases "eigh ?D")
    case (Inl e)
    then show ?thesis
      by (simp add: orthogonalize_probes_def clipped_def Let_def split: prod.splits)
  next
    case (Inr r)
    then show ?thesis
      by (cases r) (simp add: orthogonalize_probes_def clipped_def Let_def clip_eigenvalues_idem
          split: prod.splits)
  qed
qed

lemma shot_weights_clipped_fn: "shot_weights (clipped eigh) = shot_weights eigh"
  by (intro ext) (rule shot_weights_clipped)

lemma orthogonalize_probes_clipped_fn:
  "orthogonalize_probes (clipped eigh) = orthogonalize_probes eigh"
  by (intro ext) (rule orthogonalize_probes_clipped)

text \<open>
  C8. In \<open>orthogonalize_probes\<close> and in every pass of the loop of \<open>tidy_probes\<close> the square
  root is taken of \<open>clip_eigenvalues\<close> of what \<open>eigh\<close> returned: no entry of it is negative,
  a negative eigenvalue has become zero and the others are unchanged. Nothing else reads
  the eigenvalues: both functions return (or raise) exactly what they return with an
  eigensolver whose negative eigenvalues have been replaced by zero beforehand.
\<close>

theorem negative_eigenvalues_clipped:
  "list_all (\<lambda>x. 0 \<le> x) (clip_eigenvalues ev) \<and>
   list_all (\<lambda>x. 0 \<le> x) (take r (clip_eigenvalues ev)) \<and>
   clip_eigenvalues ev = map (\<lambda>x. if x < 0 then 0 else x) (rev ev) \<and>
   orthogonalize_probes (clipped eigh) svd pinv P d nz = orthogonalize_probes eigh svd pinv P d nz \<and>
   shot_weights (clipped eigh) r rho = shot_weights eigh r rho \<and>
   tidy_probes (clipped eigh) svd pinv c nz m = tidy_probes eigh svd pinv c nz m"
proof (intro conjI)
  show 1: "list_all (\<lambda>x. 0 \<le> x) (clip_eigenvalues ev)"
    by (simp add: clip_eigenvalues_def list_all_iff)
  then show "list_all (\<lambda>x. 0 \<le> x) (take r (clip_eigenvalues ev))"
    by (auto simp: list_all_iff dest: in_set_takeD)
  show "clip_eigenvalues ev = map (\<lambda>x. if x < 0 then 0 else x) (rev ev)"
    by (simp add: clip_eigenvalues_def max_def not_less)
  show "orthogonalize_probes (clipped eigh) svd pinv P d nz = orthogonalize_probes eigh svd pinv P d nz"
    by (rule orthogonalize_probes_clipped)
  show "shot_weights (clipped eigh) r rho = shot_weights eigh r rho"
    by (rule shot_weights_clipped)
  show "tidy_probes (clipped eigh) svd pinv c nz m = tidy_probes eigh svd pinv c nz m"
    unfolding tidy_probes_def orthogonalize_probes_clipped_fn shot_weights_clipped_fn
    by (rule refl)
qed

section \<open>Matrix algebra\<close>

lemma pmatD:
  assumes "pmat r c A"
  shows "length A = r" "0 < r" "0 < c" "\<And>i. i < r \<Longrightarrow> length (A ! i) = c" "ncols A = c"
proof -
  from assms show l: "length A = r" and r: "0 < r" and "0 < c"
    by (simp_all add: pmat_def is_mat_def)
  from assms show n: "\<And>i. i < r \<Longrightarrow> length (A ! i) = c"
    by (simp add: pmat_def is_mat_def list_all_length)
  from l r n [of 0] show "ncols A = c"
    by (cases A) (simp_all add: ncols_def shape2_def)
qed

lemma pmatI:
  assumes "length A = r" "0 < r" "0 < c" "\<And>i. i < r \<Longrightarrow> length (A ! i) = c"
  shows "pmat r c A"
  using assms by (simp add: pmat_def is_mat_def list_all_length)

lemma mat_eqI:
  assumes A: "pmat r c A" and B: "pmat r c B"
    and eq: "\<And>i j. i < r \<Longrightarrow> j < c \<Longrightarrow> A ! i ! j = B ! i ! j"
  shows "A = B"
proof (rule nth_equalityI)
  show "length A = length B" using pmatD(1) [OF A] pmatD(1) [OF B] by simp
next
  fix i assume "i < length A"
  then have i: "i < r" using pmatD(1) [OF A] by simp
  show "A ! i = B ! i"
    by (rule nth_equalityI) (simp_all add: pmatD(4) [OF A i] pmatD(4) [OF B i] eq [OF i])
qed

lemma dot_sum:
  assumes "length xs = n" "length ys = n"
  shows "dot xs ys = (\<Sum>k<n. xs ! k * ys ! k)"
proof -
  have "sum_list (map2 (*) xs ys) = (\<Sum>k<length (map2 (*) xs ys). map2 (*) xs ys ! k)"
    by (simp add: sum_list_sum_nth atLeast0LessThan)
  also have "\<dots> = (\<Sum>k<n. xs ! k * ys ! k)"
    using assms by simp
  finally show ?thesis by (simp add: dot_def)
qed

lemma matmul_pmat:
  assumes A: "pmat r n A" and B: "pmat n c B"
  shows "pmat r c (matmul A B)"
    and "\<And>i j. i < r \<Longrightarrow> j < c \<Longrightarrow> matmul A B ! i ! j = (\<Sum>k<n. A ! i ! k * B ! k ! j)"
proof -
  note a = pmatD [OF A] and b = pmatD [OF B]
  show "pmat r c (matmul A B)"
    by (rule pmatI) (simp_all add: matmul_def a b)
  fix i j assume i: "i < r" and j: "j < c"
  have "matmul A B ! i ! j = dot (A ! i) (col B j)"
    using i j by (simp add: matmul_def a b)
  also have "\<dots> = (\<Sum>k<n. A ! i ! k * col B j ! k)"
    by (rule dot_sum) (simp_all add: a(4) [OF i] col_def b)
  also have "\<dots> = (\<Sum>k<n. A ! i ! k * B ! k ! j)"
    by (rule sum.cong) (simp_all add: col_def b)
  finally show "matmul A B ! i ! j = (\<Sum>k<n. A ! i ! k * B ! k ! j)" .
qed

lemma np_dot_pmat:
  assumes "pmat r n A" "pmat n c B"
  shows "np_dot A B = Inr (matmul A B)"
  using pmatD [OF assms(1)] pmatD [OF assms(2)] by (simp add: np_dot_def)

lemma transpose_pmat:
  assumes A: "pmat r c A"
  shows "pmat c r (transpose_m A)"
    and "\<And>i j. i < c \<Longrightarrow> j < r \<Longrightarrow> transpose_m A ! i ! j = A ! j ! i"
proof -
  note a = pmatD [OF A]
  show "pmat c r (transpose_m A)"
    by (rule pmatI) (simp_all add: transpose_m_def col_def a)
  fix i j assume "i < c" "j < r"
  then show "transpose_m A ! i ! j = A ! j ! i"
    by (simp add: transpose_m_def col_def a)
qed

lemma conj_pmat:
  assumes A: "pmat r c A"
  shows "pmat r c (conj_m A)"
    and "\<And>i j. i < r \<Longrightarrow> j < c \<Longrightarrow> conj_m A ! i ! j = cnj (A ! i ! j)"
proof -
  note a = pmatD [OF A]
  show "pmat r c (conj_m A)"
    by (rule pmatI) (simp_all add: conj_m_def a)
  fix i j assume "i < r" "j < c"
  then show "conj_m A ! i ! j = cnj (A ! i ! j)"
    by (simp add: conj_m_def a)
qed

lemma smul2_pmat:
  assumes A: "pmat r c A"
  shows "pmat r c (smul2 z A)"
    and "\<And>i j. i < r \<Longrightarrow> j < c \<Longrightarrow> smul2 z A ! i ! j = z * A ! i ! j"
proof -
  note a = pmatD [OF A]
  show "pmat r c (smul2 z A)"
    by (rule pmatI) (simp_all add: smul2_def a)
  fix i j assume "i < r" "j < c"
  then show "smul2 z A ! i ! j = z * A ! i ! j"
    by (simp add: smul2_def a)
qed

lemma diag_pmat:
  assumes "length xs = n" "0 < n"
  shows "pmat n n (diag xs)"
    and "\<And>i j. i < n \<Longrightarrow> j < n \<Longrightarrow> diag xs ! i ! j = (if i = j then xs ! i else 0)"
  using assms by (simp_all add: diag_def pmat_def is_mat_def list_all_length)

lemma eye_pmat:
  assumes "0 < n"
  shows "pmat n n (eye n)"
    and "\<And>i j. i < n \<Longrightarrow> j < n \<Longrightarrow> eye n ! i ! j = (if i = j then 1 else 0)"
  using assms by (simp_all add: eye_def pmat_def is_mat_def list_all_length)

lemma matmul_assoc:
  assumes A: "pmat a b A" and B: "pmat b c B" and C: "pmat c d C"
  shows "matmul (matmul A B) C = matmul A (matmul B C)"
proof (rule mat_eqI)
  note AB = matmul_pmat [OF A B] and BC = matmul_pmat [OF B C]
  show "pmat a d (matmul (matmul A B) C)" by (rule matmul_pmat(1) [OF AB(1) C])
  show "pmat a d (matmul A (matmul B C))" by (rule matmul_pmat(1) [OF A BC(1)])
  fix i j assume i: "i < a" and j: "j < d"
  have "matmul (matmul A B) C ! i ! j = (\<Sum>l<c. (\<Sum>k<b. A ! i ! k * B ! k ! l) * C ! l ! j)"
    by (simp add: matmul_pmat(2) [OF AB(1) C i j] AB(2) [OF i])
  also have "\<dots> = (\<Sum>l<c. \<Sum>k<b. A ! i ! k * B ! k ! l * C ! l ! j)"
    by (simp add: sum_distrib_right)
  also have "\<dots> = (\<Sum>k<b. \<Sum>l<c. A ! i ! k * B ! k ! l * C ! l ! j)"
    by (rule sum.swap)
  also have "\<dots> = (\<Sum>k<b. A ! i ! k * (\<Sum>l<c. B ! k ! l * C ! l ! j))"
    by (simp add: sum_distrib_left mult.assoc)
  also have "\<dots> = matmul A (matmul B C) ! i ! j"
    by (simp add: matmul_pmat(2) [OF A BC(1) i j] BC(2) [OF _ j])
  finally show "matmul (matmul A B) C ! i ! j = matmul A (matmul B C) ! i ! j" .
qed

lemma matmul_eye_left:
  assumes A: "pmat r c A"
  shows "matmul (eye r) A = A"
proof (rule mat_eqI)
  note a = pmatD [OF A]
  note E = eye_pmat [OF a(2)]
  show "pmat r c (matmul (eye r) A)" by (rule matmul_pmat(1) [OF E(1) A])
  show "pmat r c A" by (rule A)
  fix i j assume i: "i < r" and j: "j < c"
  have "matmul (eye r) A ! i ! j = (\<Sum>k<r. (if i = k then 1 else 0) * A ! k ! j)"
    by (simp add: matmul_pmat(2) [OF E(1) A i j] E(2) [OF i])
  also have "\<dots> = (\<Sum>k<r. if k = i then A ! k ! j else 0)"
    by (rule sum.cong) auto
  also have "\<dots> = A ! i ! j"
    using i by simp
  finally show "matmul (eye r) A ! i ! j = A ! i ! j" .
qed

lemma matmul_eye_right:
  assumes A: "pmat r c A"
  shows "matmul A (eye c) = A"
proof (rule mat_eqI)
  note a = pmatD [OF A]
  note E = eye_pmat [OF a(3)]
  show "pmat r c (matmul A (eye c))" by (rule matmul_pmat(1) [OF A E(1)])
  show "pmat r c A" by (rule A)
  fix i j assume i: "i < r" and j: "j < c"
  have "matmul A (eye c) ! i ! j = (\<Sum>k<c. A ! i ! k * (if k = j then 1 else 0))"
    by (simp add: matmul_pmat(2) [OF A E(1) i j] E(2) [OF _ j])
  also have "\<dots> = (\<Sum>k<c. if k = j then A ! i ! k else 0)"
    by (rule sum.cong) auto
  also have "\<dots> = A ! i ! j"
    using j by simp
  finally show "matmul A (eye c) ! i ! j = A ! i ! j" .
qed

lemma transpose_matmul:
  assumes A: "pmat r n A" and B: "pmat n c B"
  shows "transpose_m (matmul A B) = matmul (transpose_m B) (transpose_m A)"
proof (rule mat_eqI)
  note AB = matmul_pmat [OF A B] and At = transpose_pmat [OF A] and Bt = transpose_pmat [OF B]
  show "pmat c r (transpose_m (matmul A B))" by (rule transpose_pmat(1) [OF AB(1)])
  show "pmat c r (matmul (transpose_m B) (transpose_m A))" by (rule matmul_pmat(1) [OF Bt(1) At(1)])
  fix i j assume i: "i < c" and j: "j < r"
  show "transpose_m (matmul A B) ! i ! j = matmul (transpose_m B) (transpose_m A) ! i ! j"
    by (simp add: transpose_pmat(2) [OF AB(1) i j] AB(2) [OF j i]
        matmul_pmat(2) [OF Bt(1) At(1) i j] Bt(2) [OF i] At(2) [OF _ j] mult.commute)
qed

lemma conj_matmul:
  assumes A: "pmat r n A" and B: "pmat n c B"
  shows "conj_m (matmul A B) = matmul (conj_m A) (conj_m B)"
proof (rule mat_eqI)
  note AB = matmul_pmat [OF A B] and Ac = conj_pmat [OF A] and Bc = conj_pmat [OF B]
  show "pmat r c (conj_m (matmul A B))" by (rule conj_pmat(1) [OF AB(1)])
  show "pmat r c (matmul (conj_m A) (conj_m B))" by (rule matmul_pmat(1) [OF Ac(1) Bc(1)])
  fix i j assume i: "i < r" and j: "j < c"
  show "conj_m (matmul A B) ! i ! j = matmul (conj_m A) (conj_m B) ! i ! j"
    by (simp add: conj_pmat(2) [OF AB(1) i j] AB(2) [OF i j]
        matmul_pmat(2) [OF Ac(1) Bc(1) i j] Ac(2) [OF i] Bc(2) [OF _ j])
qed

lemma smul2_matmul_left:
  assumes A: "pmat r n A" and B: "pmat n c B"
  shows "matmul (smul2 z A) B = smul2 z (matmul A B)"
proof (rule mat_eqI)
  note AB = matmul_pmat [OF A B] and zA = smul2_pmat [OF A, where z = z]
  show "pmat r c (matmul (smul2 z A) B)" by (rule matmul_pmat(1) [OF zA(1) B])
  show "pmat r c (smul2 z (matmul A B))" by (rule smul2_pmat(1) [OF AB(1)])
  fix i j assume i: "i < r" and j: "j < c"
  show "matmul (smul2 z A) B ! i ! j = smul2 z (matmul A B) ! i ! j"
    by (simp add: matmul_pmat(2) [OF zA(1) B i j] zA(2) [OF i] smul2_pmat(2) [OF AB(1) i j]
        AB(2) [OF i j] sum_distrib_left mult.assoc)
qed

lemma smul2_matmul_right:
  assumes A: "pmat r n A" and B: "pmat n c B"
  shows "matmul A (smul2 z B) = smul2 z (matmul A B)"
proof (rule mat_eqI)
  note AB = matmul_pmat [OF A B] and zB = smul2_pmat [OF B, where z = z]
  show "pmat r c (matmul A (smul2 z B))" by (rule matmul_pmat(1) [OF A zB(1)])
  show "pmat r c (smul2 z (matmul A B))" by (rule smul2_pmat(1) [OF AB(1)])
  fix i j assume i: "i < r" and j: "j < c"
  show "matmul A (smul2 z B) ! i ! j = smul2 z (matmul A B) ! i ! j"
    by (simp add: matmul_pmat(2) [OF A zB(1) i j] zB(2) [OF _ j] smul2_pmat(2) [OF AB(1) i j]
        AB(2) [OF i j] sum_distrib_left mult.left_commute)
qed

section \<open>Orthogonality of the tidied modes\<close>

lemma take_drop_concat_row:
  assumes "\<And>row. row \<in> set X \<Longrightarrow> length row = n" "a < length X"
  shows "take n (drop (a * n) (concat X)) = X ! a"
  using assms
proof (induction X arbitrary: a)
  case Nil
  then show ?case by simp
next
  case (Cons row X)
  have l: "length row = n" using Cons.prems(1) by simp
  show ?case
  proof (cases a)
    case 0
    then show ?thesis by (simp add: l)
  next
    case (Suc a')
    with Cons.prems have "take n (drop (a' * n) (concat X)) = X ! a'"
      by (intro Cons.IH) auto
    with Suc show ?thesis by (simp add: l add.commute)
  qed
qed

lemma length_concat_rows:
  assumes "\<And>row. row \<in> set X \<Longrightarrow> length row = n"
  shows "length (concat X) = length X * n"
  using assms by (induction X) simp_all

lemma concat_blocks:
  assumes "off + h * w \<le> length xs"
  shows "concat (map (\<lambda>b. take w (drop (off + b * w) xs)) [0..<h]) = take (h * w) (drop off xs)"
  using assms
proof (induction h)
  case 0
  then show ?case by simp
next
  case (Suc h)
  then have IH: "concat (map (\<lambda>b. take w (drop (off + b * w) xs)) [0..<h]) = take (h * w) (drop off xs)"
    by simp
  have "take (h * w + w) (drop off xs)
      = take (h * w) (drop off xs) @ take w (drop (h * w) (drop off xs))"
    by (rule take_add)
  also have "drop (h * w) (drop off xs) = drop (off + h * w) xs"
    by (simp add: add.commute)
  finally have "take (h * w) (drop off xs) @ take w (drop (off + h * w) xs)
      = take (Suc h * w) (drop off xs)"
    by (simp add: add.commute)
  with IH show ?case by simp
qed

lemma reshape3_rows:
  assumes X: "pmat k (h * w) X"
  shows "\<exists>R. reshape3 k h w X = Inr R \<and> length R = k \<and> (\<forall>a<k. concat (R ! a) = X ! a)"
proof -
  note x = pmatD [OF X]
  have rows: "\<And>row. row \<in> set X \<Longrightarrow> length row = h * w"
    using x(1,4) by (metis in_set_conv_nth)
  have len: "length (concat X) = k * h * w"
    using length_concat_rows [OF rows] x(1) by (simp add: mult.assoc)
  let ?R = "map (\<lambda>a. map (\<lambda>b. take w (drop ((a * h + b) * w) (concat X))) [0..<h]) [0..<k]"
  have "concat (?R ! a) = X ! a" if a: "a < k" for a
  proof -
    have "a * (h * w) + h * w \<le> k * (h * w)"
      using a by (metis Suc_leI mult_Suc mult_le_mono1 add.commute)
    then have bound: "a * h * w + h * w \<le> length (concat X)"
      by (simp add: len mult.assoc)
    have "concat (?R ! a) = concat (map (\<lambda>b. take w (drop (a * h * w + b * w) (concat X))) [0..<h])"
      using a by (simp add: distrib_right)
    also have "\<dots> = take (h * w) (drop (a * h * w) (concat X))"
      by (rule concat_blocks [OF bound])
    also have "\<dots> = X ! a"
      using take_drop_concat_row [OF rows, where a = a] a x(1) by (simp add: mult.assoc)
    finally show ?thesis .
  qed
  then show ?thesis
    by (simp add: reshape3_def Let_def len)
qed

lemma reshape3_length:
  assumes "reshape3 k h w X = Inr R"
  shows "length (concat X) = k * h * w"
  using assms by (auto simp: reshape3_def Let_def split: if_splits)

lemma matmul_is_mat:
  "is_mat (length A) (ncols B) (matmul A B)"
  by (simp add: is_mat_def matmul_def list_all_iff)

lemma is_mat_ncols: "is_mat r c A \<Longrightarrow> 0 < r \<Longrightarrow> ncols A = c"
  by (cases A) (auto simp: is_mat_def ncols_def shape2_def)

lemma is_mat_concat: "is_mat r c A \<Longrightarrow> length (concat A) = r * c"
  using length_concat_rows [of A c] by (auto simp: is_mat_def list_all_iff)

lemma probes_mat_pmat:
  assumes "mode_stack k h w P"
  shows "pmat k (h * w) (map concat P)"
proof (rule pmatI)
  from assms show "length (map concat P) = k" "0 < k" by (simp_all add: mode_stack_def)
  from assms have p: "\<And>i. i < k \<Longrightarrow> pmat h w (P ! i)" and l: "length P = k" and k: "0 < k"
    by (simp_all add: mode_stack_def list_all_length)
  from pmatD(2,3) [OF p [OF k]] show "0 < h * w" by simp
  fix i assume i: "i < k"
  from p [OF i] have "is_mat h w (P ! i)" by (simp add: pmat_def)
  from is_mat_concat [OF this] show "length (map concat P ! i) = h * w"
    using i l by simp
qed


lemma orthogonalize_probes_Inr:
  assumes "orthogonalize_probes eigh svd pinv P d nz = Inr (ortho, A)"
    and "mode_stack k h w P"
  obtains ev v Bd M u s vh Binv X where
    "eigh (case d of None \<Rightarrow> eye k | Some d' \<Rightarrow> d') = Inr (ev, v)"
    "np_dot (sqrt_diag (clip_eigenvalues ev)) (transpose_m (conj_m (reverse_columns v))) = Inr Bd"
    "np_dot Bd (map concat P) = Inr M"
    "svd M = Inr (u, s, vh)"
    "pinv Bd = Inr Binv"
    "reshape3 k h w X = Inr ortho"
    "nz \<Longrightarrow> X = vh \<and> (\<exists>us. np_dot u (real_diag s) = Inr us \<and> np_dot Binv us = Inr A)"
    "\<not> nz \<Longrightarrow> np_dot (real_diag s) vh = Inr X \<and> np_dot Binv u = Inr A"
proof -
  from assms(2) obtain p ps where P: "P = p # ps" and p: "pmat h w p" and k: "length P = k"
    by (cases P) (auto simp: mode_stack_def)
  from pmatD [OF p] have sh: "shape2 p = (h, w)"
    by (simp add: shape2_def ncols_def)
  from assms(1) show ?thesis
    unfolding orthogonalize_probes_def Let_def P list.case sh prod.case
    using that [unfolded k [symmetric] P]
    by (cases nz) (auto split: sum.splits prod.splits simp: P)
qed


lemma dagger_pmat:
  assumes A: "pmat r c A"
  shows "pmat c r (dagger A)"
    and "\<And>i j. i < c \<Longrightarrow> j < r \<Longrightarrow> dagger A ! i ! j = cnj (A ! j ! i)"
proof -
  note Ac = conj_pmat [OF A]
  show "pmat c r (dagger A)"
    unfolding dagger_def by (rule transpose_pmat(1) [OF Ac(1)])
  fix i j assume "i < c" "j < r"
  then show "dagger A ! i ! j = cnj (A ! j ! i)"
    by (simp add: dagger_def transpose_pmat(2) [OF Ac(1)] Ac(2))
qed

lemma real_diag_pmat:
  assumes "length s = n" "0 < n"
  shows "pmat n n (real_diag s)"
    and "\<And>i j. i < n \<Longrightarrow> j < n \<Longrightarrow> real_diag s ! i ! j = (if i = j then of_real (s ! i) else 0)"
  using assms diag_pmat [of "map complex_of_real s" n] by (simp_all add: real_diag_def)

lemma diag_matmul_entry:
  assumes s: "length s = n" "0 < n" and B: "pmat n c B" and i: "i < n" and j: "j < c"
  shows "matmul (real_diag s) B ! i ! j = of_real (s ! i) * B ! i ! j"
proof -
  note D = real_diag_pmat [OF s]
  have "matmul (real_diag s) B ! i ! j = (\<Sum>l<n. (if i = l then of_real (s ! i) else 0) * B ! l ! j)"
    by (simp add: matmul_pmat(2) [OF D(1) B i j] D(2) [OF i])
  also have "\<dots> = (\<Sum>l<n. if l = i then of_real (s ! i) * B ! l ! j else 0)"
    by (rule sum.cong) auto
  also have "\<dots> = of_real (s ! i) * B ! i ! j"
    using i by simp
  finally show ?thesis .
qed

lemma matmul_diag_entry:
  assumes s: "length s = n" "0 < n" and A: "pmat r n A" and i: "i < r" and j: "j < n"
  shows "matmul A (real_diag s) ! i ! j = A ! i ! j * of_real (s ! j)"
proof -
  note D = real_diag_pmat [OF s]
  have "matmul A (real_diag s) ! i ! j = (\<Sum>l<n. A ! i ! l * (if l = j then of_real (s ! l) else 0))"
    by (simp add: matmul_pmat(2) [OF A D(1) i j] D(2) [OF _ j])
  also have "\<dots> = (\<Sum>l<n. if l = j then A ! i ! l * of_real (s ! l) else 0)"
    by (rule sum.cong) auto
  also have "\<dots> = A ! i ! j * of_real (s ! j)"
    using j by simp
  finally show ?thesis .
qed

lemma ncols_matmul: "A \<noteq> [] \<Longrightarrow> ncols (matmul A B) = ncols B"
  by (cases A) (simp_all add: matmul_def ncols_def shape2_def)

lemma matmul_rect: "is_mat (length (matmul A B)) (ncols (matmul A B)) (matmul A B)"
proof (cases A)
  case Nil
  then show ?thesis by (simp add: matmul_def is_mat_def)
next
  case (Cons a A')
  then have "ncols (matmul A B) = ncols B" by (simp add: ncols_matmul)
  then show ?thesis using matmul_is_mat [of A B] by (simp add: matmul_def)
qed

lemma np_dot_Inr: "np_dot A B = Inr C \<Longrightarrow> C = matmul A B \<and> ncols A = length B"
  by (auto simp: np_dot_def split: if_splits)

text \<open>What the singular value decomposition inside \<open>orthogonalize_probes\<close> looks like.\<close>

lemma orthogonalize_probes_run:
  assumes svd: "svd_contract svd"
    and run: "orthogonalize_probes eigh svd pinv P d nz = Inr (ortho, A)"
    and st: "mode_stack k h w P"
  obtains ev v Bd Binv u s vh X where
    "eigh (case d of None \<Rightarrow> eye k | Some d' \<Rightarrow> d') = Inr (ev, v)"
    "np_dot (sqrt_diag (clip_eigenvalues ev)) (transpose_m (conj_m (reverse_columns v))) = Inr Bd"
    "pinv Bd = Inr Binv"
    "nz \<Longrightarrow> \<exists>us. np_dot u (real_diag s) = Inr us \<and> np_dot Binv us = Inr A"
    "\<not> nz \<Longrightarrow> np_dot Binv u = Inr A"
    "ncols Bd = k" "k \<le> length Bd"
    "svd (matmul Bd (map concat P)) = Inr (u, s, vh)"
    "is_mat (length Bd) k u" "length s = k" "pmat k (h * w) vh"
    "matmul (matmul u (real_diag s)) vh = matmul Bd (map concat P)"
    "matmul vh (dagger vh) = eye k"
    "X = (if nz then vh else matmul (real_diag s) vh)"
    "pmat k (h * w) X" "length ortho = k" "\<And>a. a < k \<Longrightarrow> concat (ortho ! a) = X ! a"
proof (rule orthogonalize_probes_Inr [OF run st])
  fix ev v Bd M u s vh Binv X
  assume ei: "eigh (case d of None \<Rightarrow> eye k | Some d' \<Rightarrow> d') = Inr (ev, v)"
    and bd: "np_dot (sqrt_diag (clip_eigenvalues ev)) (transpose_m (conj_m (reverse_columns v))) = Inr Bd"
    and m: "np_dot Bd (map concat P) = Inr M"
    and sv: "svd M = Inr (u, s, vh)"
    and pi: "pinv Bd = Inr Binv"
    and re: "reshape3 k h w X = Inr ortho"
    and x1': "nz \<Longrightarrow> X = vh \<and> (\<exists>us. np_dot u (real_diag s) = Inr us \<and> np_dot Binv us = Inr A)"
    and x2': "\<not> nz \<Longrightarrow> np_dot (real_diag s) vh = Inr X \<and> np_dot Binv u = Inr A"
  have x1: "nz \<Longrightarrow> X = vh"
    and a1: "nz \<Longrightarrow> \<exists>us. np_dot u (real_diag s) = Inr us \<and> np_dot Binv us = Inr A"
    using x1' by simp_all
  have x2: "\<not> nz \<Longrightarrow> np_dot (real_diag s) vh = Inr X"
    and a2: "\<not> nz \<Longrightarrow> np_dot Binv u = Inr A"
    using x2' by simp_all
  note pm = probes_mat_pmat [OF st]
  note pmD = pmatD [OF pm]
  from np_dot_Inr [OF m] pmD have M: "M = matmul Bd (map concat P)" and nb: "ncols Bd = k"
    by simp_all
  have rect: "is_mat (length M) (ncols M) M"
    unfolding M by (rule matmul_rect)
  from svd sv rect have res: "svd_result M u s vh"
    by (auto simp: svd_contract_def)
  define k' where "k' = min (length M) (ncols M)"
  from res have u: "is_mat (length M) k' u" and ls: "length s = k'"
    and vh: "is_mat k' (ncols M) vh"
    and rec: "matmul (matmul u (real_diag s)) vh = M"
    and on: "matmul vh (dagger vh) = eye k'"
    by (simp_all add: svd_result_def Let_def k'_def)
  from reshape3_length [OF re] have lenX: "length (concat X) = k * h * w" .
  from pmD have hw: "0 < h * w" and kpos: "0 < k" by simp_all
  have Xmat: "is_mat k' (ncols M) X"
  proof (cases nz)
    case True
    with x1 vh show ?thesis by simp
  next
    case False
    from np_dot_Inr [OF x2 [OF False]] have X: "X = matmul (real_diag s) vh" by simp
    have "length (real_diag s) = k'" by (simp add: real_diag_def diag_def ls)
    moreover have "ncols vh = ncols M" if "0 < k'"
      using is_mat_ncols [OF vh that] .
    ultimately show ?thesis
      unfolding X using matmul_is_mat [of "real_diag s" vh]
      by (cases "k' = 0") (auto simp: is_mat_def matmul_def)
  qed
  have bdne: "Bd \<noteq> []"
  proof
    assume "Bd = []"
    then have "M = []" by (simp add: M matmul_def)
    then have "k' = 0" by (simp add: k'_def)
    with Xmat have "concat X = []" by (simp add: is_mat_def)
    with lenX kpos hw show False by simp
  qed
  then have ncM: "ncols M = h * w"
    by (simp add: M ncols_matmul pmD)
  from is_mat_concat [OF Xmat] lenX have "k' * (h * w) = k * (h * w)"
    by (auto simp: ncM mult.assoc)
  with hw have kk: "k' = k" by simp
  have lM: "length M = length Bd" by (simp add: M matmul_def)
  from kk k'_def have kle: "k \<le> length Bd" by (simp add: lM)
  have vhp: "pmat k (h * w) vh"
    using vh kpos hw by (simp add: pmat_def kk ncM)
  have Xp: "pmat k (h * w) X"
    using Xmat kpos hw by (simp add: pmat_def kk ncM)
  from reshape3_rows [OF Xp] re have lo: "length ortho = k"
    and rows: "\<And>a. a < k \<Longrightarrow> concat (ortho ! a) = X ! a"
    by auto
  have Xeq: "X = (if nz then vh else matmul (real_diag s) vh)"
    using x1 x2 np_dot_Inr by (cases nz) auto
  show ?thesis
    using that [OF ei bd pi a1 a2 nb kle sv [unfolded M] u [unfolded lM kk] ls [unfolded kk] vhp
        rec [unfolded M] on [unfolded kk] Xeq Xp lo rows] .
qed

lemma orthogonalize_probes_svd:
  assumes svd: "svd_contract svd"
    and run: "orthogonalize_probes eigh svd pinv P d nz = Inr (ortho, A)"
    and st: "mode_stack k h w P"
  obtains s vh X where
    "length s = k" "pmat k (h * w) vh"
    "matmul vh (dagger vh) = eye k"
    "X = (if nz then vh else matmul (real_diag s) vh)"
    "pmat k (h * w) X" "length ortho = k" "\<And>a. a < k \<Longrightarrow> concat (ortho ! a) = X ! a"
proof (rule orthogonalize_probes_run [OF svd run st])
  fix ev :: "real list" and v Bd Binv u :: cmat and s vh X
  assume "length s = k" "pmat k (h * w) vh"
    "matmul vh (dagger vh) = eye k"
    "X = (if nz then vh else matmul (real_diag s) vh)"
    "pmat k (h * w) X" "length ortho = k" "\<And>a. a < k \<Longrightarrow> concat (ortho ! a) = X ! a"
  then show ?thesis by (rule that)
qed

lemma ortho_modes_orthogonal:
  assumes svd: "svd_contract svd"
    and run: "orthogonalize_probes eigh svd pinv P d nz = Inr (ortho, A)"
    and st: "mode_stack k h w P"
    and ij: "i < k" "j < k" "i \<noteq> j"
  shows "mode_inner (ortho ! i) (ortho ! j) = 0"
proof -
  from orthogonalize_probes_svd [OF svd run st] obtain s vh X where
    ls: "length s = k" and vh: "pmat k (h * w) vh"
    and on: "matmul vh (dagger vh) = eye k"
    and X: "X = (if nz then vh else matmul (real_diag s) vh)"
    and Xp: "pmat k (h * w) X"
    and rows: "\<And>a. a < k \<Longrightarrow> concat (ortho ! a) = X ! a"
    by metis
  note v = pmatD [OF vh] and x = pmatD [OF Xp]
  note vd = dagger_pmat [OF vh]
  have "(\<Sum>l<h * w. vh ! i ! l * cnj (vh ! j ! l)) = matmul vh (dagger vh) ! i ! j"
    by (simp add: matmul_pmat(2) [OF vh vd(1) ij(1,2)] vd(2) [OF _ ij(2)])
  also have "\<dots> = 0"
    using ij by (simp add: on eye_pmat(2) [OF v(2)])
  finally have orth: "(\<Sum>l<h * w. vh ! i ! l * cnj (vh ! j ! l)) = 0" .
  have "mode_inner (ortho ! i) (ortho ! j) = dot (X ! i) (map cnj (X ! j))"
    by (simp add: mode_inner_def rows ij)
  also have "\<dots> = (\<Sum>l<h * w. X ! i ! l * cnj (X ! j ! l))"
    using dot_sum [of "X ! i" "h * w" "map cnj (X ! j)"] x(4) ij by simp
  also have "\<dots> = 0"
  proof (cases nz)
    case True
    with X orth show ?thesis by simp
  next
    case False
    with X have X': "X = matmul (real_diag s) vh" by simp
    have "(\<Sum>l<h * w. X ! i ! l * cnj (X ! j ! l))
        = (\<Sum>l<h * w. of_real (s ! i * s ! j) * (vh ! i ! l * cnj (vh ! j ! l)))"
      by (rule sum.cong)
         (simp_all add: X' diag_matmul_entry [OF ls v(2) vh] ij mult_ac)
    also have "\<dots> = of_real (s ! i * s ! j) * (\<Sum>l<h * w. vh ! i ! l * cnj (vh ! j ! l))"
      by (simp add: sum_distrib_left)
    finally show ?thesis by (simp add: orth)
  qed
  finally show ?thesis .
qed

lemma mats2:
  "matmul [[a, b], [c, d]] [[e, f], [g, h]] = [[a * e + b * g, a * f + b * h], [c * e + d * g, c * f + d * h]]"
  "transpose_m [[a, b], [c, d]] = [[a, c], [b, d]]"
  "conj_m [[a, b], [c, d]] = [[cnj a, cnj b], [cnj c, cnj d]]"
  "dagger [[a, b], [c, d]] = [[cnj a, cnj c], [cnj b, cnj d]]"
  "diag [a, b] = [[a, 0], [0, b]]"
  "eye 2 = [[1, 0], [0, 1]]"
  "eye (Suc (Suc 0)) = [[1, 0], [0, 1]]"
  "ncols [[a, b], [c, d]] = 2"
  "smul2 z [[a, b], [c, d]] = [[z * a, z * b], [z * c, z * d]]"
  "reverse_columns [[a, b], [c, d]] = [[b, a], [d, c]]"
  by (simp_all add: matmul_def dot_def col_def ncols_def shape2_def transpose_m_def conj_m_def
      dagger_def diag_def eye_def smul2_def reverse_columns_def numeral_2_eq_2 upt_rec)

lemma example_eigh_contract: "eigh_contract example_eigh"
  unfolding eigh_contract_def example_eigh_def
  by (auto simp: eigh_result_def is_mat_def mats2 real_diag_def split: if_splits)

lemma example_svd_contract: "svd_contract example_svd"
  unfolding svd_contract_def example_svd_def
  by (auto simp: svd_result_def is_mat_def mats2 real_diag_def Let_def split: if_splits)

lemma example_pinv_contract: "pinv_contract example_pinv"
  unfolding pinv_contract_def example_pinv_def
  by (auto simp: pinv_result_def is_mat_def mats2 split: if_splits)

lemma tidy_example_run:
  "tidy_probes example_eigh example_svd example_pinv 1 False tidy_example = Inr tidy_example_result"
proof -
  have rhos: "get_rhos [[[2, 0], [0, 1]], [[2 * \<i>, 0], [0, 1]]] = [[[4, 0], [0, 1]], [[4, 0], [0, 1]]]"
    by (simp add: get_rhos_def mats2)
  have mean: "mean_rho [[[4, 0], [0, 1]], [[4, 0], [0, 1]]] = [[4, 0], [0, 1]]"
    by (simp add: mean_rho_def msum_def madd_def mats2)
  have ortho: "orthogonalize_probes example_eigh example_svd example_pinv [[[1, 0]], [[0, 2]]]
      (Some [[4, 0], [0, 1]]) False = Inr ([[[2, 0]], [[0, 2]]], [[1 / 2, 0], [0, 1]])"
    by (simp add: orthogonalize_probes_def example_eigh_def example_svd_def example_pinv_def
        shape2_def clip_eigenvalues_def sqrt_diag_def real_diag_def mats2 np_dot_def reshape3_def
        numeral_2_eq_2 upt_rec)
  have shot: "shot_weights example_eigh (Suc (Suc 0)) [[1, 0], [0, 1]] = Inr [[0, 1], [1, 0]]"
    by (simp add: shot_weights_def example_eigh_def clip_eigenvalues_def sqrt_diag_def mats2
        np_dot_def)
  show ?thesis
    by (simp add: tidy_probes_def tidy_example_def tidy_example_result_def example_model_def
        rhos mean ortho shot np_dot_def mats2 tag_def smul3_def smul2_one)
qed

lemma mode_inner_scaled: "mode_inner (smul2 z p) (smul2 z q) = z * cnj z * mode_inner p q"
proof -
  have c: "concat (smul2 z a) = map (\<lambda>x. z * x) (concat a)" for a
    by (simp add: smul2_def map_concat)
  have "dot (map (\<lambda>x. z * x) xs) (map cnj (map (\<lambda>x. z * x) ys)) = z * cnj z * dot xs (map cnj ys)"
    for xs ys
  proof (induction xs arbitrary: ys)
    case Nil
    then show ?case by (simp add: dot_def)
  next
    case (Cons x xs)
    then show ?case
      by (cases ys) (simp_all add: dot_def algebra_simps)
  qed
  then show ?thesis by (simp add: mode_inner_def c)
qed

text \<open>
  C9. The singular value decomposition returning orthonormal rows \<open>vh\<close>, the probe modes
  returned by \<open>orthogonalize_probes\<close>, and the probe modes stored by \<open>tidy_probes\<close>, are
  mutually orthogonal: the inner product over the pixels of two distinct modes is zero.
  The modes are the rows of \<open>diag(s) vh\<close> (or of \<open>vh\<close>), times \<open>sqrt(normalization)\<close>.
\<close>

theorem tidied_modes_orthogonal:
  assumes svd: "svd_contract svd"
    and st: "mode_stack k h w P"
    and ij: "i < k" "j < k" "i \<noteq> j"
  shows "(orthogonalize_probes eigh svd pinv P d nz = Inr (ortho, A)
            \<longrightarrow> mode_inner (ortho ! i) (ortho ! j) = 0) \<and>
         (tidy_probes eigh svd pinv c nz m = Inr m' \<and> probe m = Finite P \<and> probe m' = Finite P'
            \<longrightarrow> mode_inner (P' ! i) (P' ! j) = 0)"
proof (intro conjI impI)
  assume "orthogonalize_probes eigh svd pinv P d nz = Inr (ortho, A)"
  from ortho_modes_orthogonal [OF svd this st ij]
  show "mode_inner (ortho ! i) (ortho ! j) = 0" .
next
  assume a: "tidy_probes eigh svd pinv c nz m = Inr m' \<and> probe m = Finite P \<and> probe m' = Finite P'"
  then have run: "tidy_probes eigh svd pinv c nz m = Inr m'" and P: "probe m = Finite P"
    and P': "probe m' = Finite P'" by simp_all
  from run obtain W where W: "weights m = Some W"
    by (cases "weights m") (auto simp: tidy_probes_def)
  show "mode_inner (P' ! i) (P' ! j) = 0"
  proof (cases W)
    case (Scalar_weights ws)
    with run W P obtain ortho' A' where
      o: "orthogonalize_probes eigh svd pinv P None False = Inr (ortho', A')"
      and m': "m' = m\<lparr>probe := Finite ortho'\<rparr>"
      by (auto simp: tidy_probes_def split: sum.splits)
    from m' P' have "P' = ortho'" by simp
    with ortho_modes_orthogonal [OF svd o st ij] show ?thesis by simp
  next
    case (Matrix_weights Ws)
    with run W P obtain ortho' A' where
      o: "orthogonalize_probes eigh svd pinv P (Some (mean_rho (get_rhos Ws))) nz = Inr (ortho', A')"
      and pr: "probe m' = tag (0 < c) (smul3 (of_real (sqrt c)) ortho')"
      by (auto simp: tidy_probes_def Let_def split: sum.splits if_splits)
    from pr P' have P'eq: "P' = smul3 (of_real (sqrt c)) ortho'"
      by (auto simp: tag_def split: if_splits)
    from orthogonalize_probes_svd [OF svd o st] have len: "length ortho' = k" by metis
    have "P' ! a = smul2 (of_real (sqrt c)) (ortho' ! a)" if "a < k" for a
      using that len by (simp add: P'eq smul3_def)
    with ij have "mode_inner (P' ! i) (P' ! j)
        = of_real (sqrt c) * cnj (of_real (sqrt c)) * mode_inner (ortho' ! i) (ortho' ! j)"
      by (simp add: mode_inner_scaled)
    with ortho_modes_orthogonal [OF svd o st ij] show ?thesis by simp
  qed
qed

theorem tidied_modes_orthogonal_witness:
  "tidy_probes example_eigh example_svd example_pinv 1 False tidy_example = Inr tidy_example_result \<and>
   probe tidy_example_result = Finite [[[2, 0]], [[0, 2]]] \<and>
   mode_inner [[2, 0]] [[0, 2]] = 0 \<and> mode_inner [[2, 0]] [[2, 0]] = 4"
proof -
  have st: "mode_stack 2 1 2 [[[1, 0]], [[0, 2 :: complex]]]"
    by (simp add: mode_stack_def pmat_def is_mat_def)
  have a: "probe tidy_example = Finite [[[1, 0]], [[0, 2]]]"
    "probe tidy_example_result = Finite [[[2, 0]], [[0, 2]]]"
    by (simp_all add: tidy_example_def tidy_example_result_def)
  from tidied_modes_orthogonal [OF example_svd_contract st, where i = 0 and j = 1
      and eigh = example_eigh and pinv = example_pinv and c = 1 and nz = False
      and m = tidy_example and m' = tidy_example_result and P' = "[[[2, 0]], [[0, 2]]]"]
    tidy_example_run a
  show ?thesis by (simp add: mode_inner_def dot_def)
qed

end
